theory Spec2Isabelle
  imports Main "HOL-Library.Word"
begin

unbundle bit_operations_syntax

section \<open>Syntax trees consumed by the evaluator\<close>

text \<open>
  Modelled from the spec: the declarations of the syntax-tree node types live in the parser,
  which is no part of \<^verbatim>\<open>eval.go\<close>. The constructors and their fields are the ones that
  \<^verbatim>\<open>evalExpr\<close> reads (\<^verbatim>\<open>n.payload\<close>, \<^verbatim>\<open>n.elems\<close>, \<^verbatim>\<open>n.entries\<close>,
  \<^verbatim>\<open>n.name\<close>, \<^verbatim>\<open>n.args\<close>, \<^verbatim>\<open>n.body\<close>, \<^verbatim>\<open>n.isLocal\<close>, \<^verbatim>\<open>n.left\<close>,
  \<^verbatim>\<open>n.right\<close>, \<^verbatim>\<open>n.fn\<close>, \<^verbatim>\<open>n.cond\<close>, \<^verbatim>\<open>n.branches\<close>, \<^verbatim>\<open>n.exprs\<close>); the fields of
  the two operator nodes are never read by the evaluator and follow the data model of the
  specification (an operator and its operands). An object entry is the pair of its
  \<^verbatim>\<open>key\<close> and \<^verbatim>\<open>val\<close>, an if-branch the pair of its \<^verbatim>\<open>target\<close> and \<^verbatim>\<open>body\<close>.

  A \<^verbatim>\<open>float64\<close> is kept as its IEEE-754 bit pattern.
\<close>

type_synonym int64 = "64 word"
type_synonym float64 = "64 word"

datatype astNode =
    emptyNode
  | nullNode
  | stringNode string
  | numberNode bool int64 float64
  | booleanNode bool
  | atomNode string
  | listNode "astNode list"
  | objectNode "(astNode \<times> astNode) list"
  | fnNode string "string list" astNode
  | identifierNode string
  | assignmentNode bool astNode astNode
  | propertyAccessNode astNode astNode
  | unaryNode string astNode
  | binaryNode string astNode astNode
  | fnCallNode astNode "astNode list"
  | ifExprNode astNode "(astNode \<times> astNode) list"
  | blockNode "astNode list"

section \<open>Scopes and values\<close>

text \<open>
  \<^verbatim>\<open>type scope struct { parent *scope; vars map[string]Value }\<close>. Neither field is ever
  assigned after a scope has been built, so the struct that \<^verbatim>\<open>parent\<close> points to is
  kept by value; the Go map behind \<^verbatim>\<open>vars\<close> is shared by every copy of the struct and is
  mutated in place, so \<^verbatim>\<open>vars\<close> is the address of that map in the store.
\<close>

datatype scope = Scope (parent: "scope option") (vars: nat)

text \<open>
  The variants of the \<^verbatim>\<open>Value\<close> interface. A \<^verbatim>\<open>StringValue\<close> is a byte slice, an
  \<^verbatim>\<open>ObjectValue\<close> a Go map, kept as an association list with distinct keys (only
  \<^verbatim>\<open>objPut\<close> below adds to it). \<^verbatim>\<open>FnValue{defn *fnNode; scope}\<close> holds a pointer: its
  first field is the address of the \<^verbatim>\<open>fnNode\<close> pointed to, the next three are the name,
  parameters and body found there, the last is the embedded scope.
  \<^verbatim>\<open>BuiltinFnValue\<close> is declared outside \<^verbatim>\<open>eval.go\<close>; following the specification it
  is an opaque native callable, identified here by a name.
\<close>

datatype Value =
    EmptyValue
  | NullValue
  | StringValue string
  | IntValue int64
  | FloatValue float64
  | BoolValue bool
  | AtomValue string
  | ListValue "Value list"
  | ObjectValue "(string \<times> Value) list"
  | FnValue nat string "string list" astNode scope
  | BuiltinFnValue string

text \<open>
  The two error types of \<^verbatim>\<open>eval.go\<close>; the stack trace of a runtime error is always the
  empty \<^verbatim>\<open>stackEntry{}\<close> and is left out. A Go function returns a value, returns an
  error, or panics: with the message of its \<^verbatim>\<open>panic\<close> call, or, for a panic of the Go
  runtime (an index or a slice bound out of range), with the kind of that panic.
\<close>

datatype error = vmError string | runtimeError string

datatype 'a result = Return 'a | Error error | Panic string

text \<open>
  Modelled from the spec: a builtin function is an opaque native callable from the sequence
  of argument values to a value or an error; its declaration and its methods are not in
  \<^verbatim>\<open>eval.go\<close>. They are parameters of the model, and so is the rest of what \<^verbatim>\<open>eval.go\<close>
  calls but does not define: the \<^verbatim>\<open>String\<close> method of syntax nodes, the library's
  \<^verbatim>\<open>strconv.FormatFloat(f, 'g', -1, 64)\<close>, and the order in which Go ranges over the
  entries of a map (unspecified by the language), as a rearrangement of the formatted
  entries.
\<close>

record host =
  astString :: "astNode \<Rightarrow> string"
  FormatFloat :: "float64 \<Rightarrow> string"
  rangeOrder :: "string list \<Rightarrow> string list"
  builtinString :: "string \<Rightarrow> string"
  builtinEq :: "string \<Rightarrow> Value \<Rightarrow> bool"
  builtinCall :: "string \<Rightarrow> Value list \<Rightarrow> Value result"

subsection \<open>Formatting\<close>

text \<open>\<^verbatim>\<open>strconv.FormatInt(i, 10)\<close>: the decimal digits, after a minus sign when negative.\<close>

function digitsOf :: "nat \<Rightarrow> string" where
  "digitsOf n =
     (if n < 10 then [''0123456789'' ! n]
      else digitsOf (n div 10) @ [''0123456789'' ! (n mod 10)])"
  by pat_completeness auto
termination
  by (relation "measure (\<lambda>n. n)") auto

declare digitsOf.simps [simp del]

definition FormatInt :: "int \<Rightarrow> string" where
  "FormatInt i = (if i < 0 then CHR ''-'' # digitsOf (nat (- i)) else digitsOf (nat i))"

text \<open>\<^verbatim>\<open>strings.Join\<close>.\<close>

fun Join :: "string list \<Rightarrow> string \<Rightarrow> string" where
  "Join [] sep = []"
| "Join [s] sep = s"
| "Join (s # t # ss) sep = s @ sep @ Join (t # ss) sep"

text \<open>
  The \<^verbatim>\<open>String\<close> methods. \<^verbatim>\<open>StringElems\<close> is the loop of \<^verbatim>\<open>ListValue.String\<close>,
  \<^verbatim>\<open>StringEntries\<close> the loop of \<^verbatim>\<open>ObjectValue.String\<close>, whose entries come in the
  order of Go's map iteration.
\<close>

fun String' :: "host \<Rightarrow> Value \<Rightarrow> string"
  and StringElems :: "host \<Rightarrow> Value list \<Rightarrow> string list"
  and StringEntries :: "host \<Rightarrow> (string \<times> Value) list \<Rightarrow> string list" where
  "String' h EmptyValue = ''_''"
| "String' h NullValue = ''?''"
| "String' h (StringValue v) = [CHR 0x27] @ v @ [CHR 0x27]"
| "String' h (IntValue v) = FormatInt (sint v)"
| "String' h (FloatValue v) = FormatFloat h v"
| "String' h (BoolValue v) = (if v then ''true'' else ''false'')"
| "String' h (AtomValue v) = '':'' @ v"
| "String' h (ListValue v) = ''['' @ Join (StringElems h v) '', '' @ '']''"
| "String' h (ObjectValue v) = ''{'' @ Join (rangeOrder h (StringEntries h v)) '', '' @ ''}''"
| "String' h (FnValue d name args body sc) = astString h (fnNode name args body)"
| "String' h (BuiltinFnValue b) = builtinString h b"
| "StringElems h [] = []"
| "StringElems h (val # v) = String' h val # StringElems h v"
| "StringEntries h [] = []"
| "StringEntries h ((key, val) # v) = (key @ '': '' @ String' h val) # StringEntries h v"

subsection \<open>Equality\<close>

text \<open>
  IEEE-754 comparison \<^verbatim>\<open>==\<close> on bit patterns: a NaN equals nothing, the two zeros are
  equal, every other number equals only itself.
\<close>

definition isNaN :: "float64 \<Rightarrow> bool" where
  "isNaN w \<longleftrightarrow> w AND 0x7FF0000000000000 = 0x7FF0000000000000 \<and> w AND 0x000FFFFFFFFFFFFF \<noteq> 0"

definition float_eq :: "float64 \<Rightarrow> float64 \<Rightarrow> bool" where
  "float_eq v w \<longleftrightarrow>
     \<not> isNaN v \<and> \<not> isNaN w \<and>
     (v = w \<or> (v AND 0x7FFFFFFFFFFFFFFF = 0 \<and> w AND 0x7FFFFFFFFFFFFFFF = 0))"

text \<open>
  The \<^verbatim>\<open>Eq\<close> methods, the receiver first. \<^verbatim>\<open>EqElems\<close> is the loop of
  \<^verbatim>\<open>ListValue.Eq\<close>, entered only with lists of one length (the \<^verbatim>\<open>w[i]\<close> of the source is
  then in range); \<^verbatim>\<open>EqEntries\<close> is the loop of \<^verbatim>\<open>ObjectValue.Eq\<close> over the receiver's
  entries.
\<close>

fun Eq :: "host \<Rightarrow> Value \<Rightarrow> Value \<Rightarrow> bool"
  and EqElems :: "host \<Rightarrow> Value list \<Rightarrow> Value list \<Rightarrow> bool"
  and EqEntries :: "host \<Rightarrow> (string \<times> Value) list \<Rightarrow> (string \<times> Value) list \<Rightarrow> bool" where
  "Eq h EmptyValue u = True"
| "Eq h NullValue u = (case u of EmptyValue \<Rightarrow> True | NullValue \<Rightarrow> True | _ \<Rightarrow> False)"
| "Eq h (StringValue v) u = (case u of EmptyValue \<Rightarrow> True | StringValue w \<Rightarrow> v = w | _ \<Rightarrow> False)"
| "Eq h (IntValue v) u = (case u of EmptyValue \<Rightarrow> True | IntValue w \<Rightarrow> v = w | _ \<Rightarrow> False)"
| "Eq h (FloatValue v) u =
     (case u of EmptyValue \<Rightarrow> True | FloatValue w \<Rightarrow> float_eq v w | _ \<Rightarrow> False)"
| "Eq h (BoolValue v) u = (case u of EmptyValue \<Rightarrow> True | BoolValue w \<Rightarrow> v = w | _ \<Rightarrow> False)"
| "Eq h (AtomValue v) u = (case u of EmptyValue \<Rightarrow> True | AtomValue w \<Rightarrow> v = w | _ \<Rightarrow> False)"
| "Eq h (ListValue v) u =
     (case u of
        EmptyValue \<Rightarrow> True
      | ListValue w \<Rightarrow> if length v \<noteq> length w then False else EqElems h v w
      | _ \<Rightarrow> False)"
| "Eq h (ObjectValue v) u =
     (case u of
        EmptyValue \<Rightarrow> True
      | ObjectValue w \<Rightarrow> if length v \<noteq> length w then False else EqEntries h v w
      | _ \<Rightarrow> False)"
| "Eq h (FnValue d name args body sc) u =
     (case u of FnValue d' name' args' body' sc' \<Rightarrow> d = d' | _ \<Rightarrow> False)"
| "Eq h (BuiltinFnValue b) u = builtinEq h b u"
| "EqElems h [] w = True"
| "EqElems h (el # v) w =
     (case w of
        [] \<Rightarrow> False
      | x # w' \<Rightarrow> if \<not> Eq h el x then False else EqElems h v w')"
| "EqEntries h [] w = True"
| "EqEntries h ((key, val) # v) w =
     (case map_of w key of
        Some wVal \<Rightarrow> if \<not> Eq h val wVal then False else EqEntries h v w
      | None \<Rightarrow> False)"

section \<open>The store and the scope chain\<close>

text \<open>
  The store holds what the program shares by reference: the Go maps behind the scopes, by
  address, and the count of \<^verbatim>\<open>fnNode\<close> variables allocated so far, which is the address
  of the next one.
\<close>

record store =
  heap :: "nat \<Rightarrow> (string \<rightharpoonup> Value)"
  nextMap :: nat
  nextDefn :: nat

text \<open>\<^verbatim>\<open>scope{parent: p, vars: map[string]Value{}}\<close>: a scope over a new, empty map.\<close>

definition newScope :: "scope option \<Rightarrow> store \<Rightarrow> scope \<times> store" where
  "newScope p st =
     (Scope p (nextMap st),
      st\<lparr>heap := (heap st)(nextMap st := Map.empty), nextMap := Suc (nextMap st)\<rparr>)"

fun get :: "store \<Rightarrow> scope \<Rightarrow> string \<Rightarrow> error + Value" where
  "get st (Scope p a) name =
     (case heap st a name of
        Some v \<Rightarrow> Inr v
      | None \<Rightarrow>
          (case p of
             Some psc \<Rightarrow> get st psc name
           | None \<Rightarrow> Inl (runtimeError (name @ '' is undefined''))))"

definition put :: "scope \<Rightarrow> string \<Rightarrow> Value \<Rightarrow> store \<Rightarrow> store" where
  "put sc name v st = st\<lparr>heap := (heap st)(vars sc := (heap st (vars sc))(name \<mapsto> v))\<rparr>"

text \<open>\<^verbatim>\<open>update\<close> returns Go's \<^verbatim>\<open>error\<close>, \<^verbatim>\<open>nil\<close> being \<open>None\<close>.\<close>

fun update :: "scope \<Rightarrow> string \<Rightarrow> Value \<Rightarrow> store \<Rightarrow> error option \<times> store" where
  "update (Scope p a) name v st =
     (case heap st a name of
        Some old \<Rightarrow> (None, st\<lparr>heap := (heap st)(a := (heap st a)(name \<mapsto> v))\<rparr>)
      | None \<Rightarrow>
          (case p of
             Some psc \<Rightarrow> update psc name v st
           | None \<Rightarrow> (Some (runtimeError (name @ '' is undefined'')), st)))"

record Context =
  Cwd :: string
  SourcePath :: string
  rootScope :: scope

definition emptyStore :: store where
  "emptyStore = \<lparr>heap = (\<lambda>a. Map.empty), nextMap = 0, nextDefn = 0\<rparr>"

definition NewContext :: "string \<Rightarrow> string \<Rightarrow> store \<Rightarrow> Context \<times> store" where
  "NewContext path cwd st =
     (case newScope None st of
        (sc, st') \<Rightarrow> (\<lparr>Cwd = cwd, SourcePath = path, rootScope = sc\<rparr>, st'))"

section \<open>The evaluator\<close>

text \<open>
  An evaluation returns a value or an error, or panics, and leaves a store; it may also not
  end, which is \<open>None\<close>. \<^verbatim>\<open>andThen\<close> is Go's \<^verbatim>\<open>if err != nil { return nil, err }\<close>.
\<close>

type_synonym 'a outcome = "('a result \<times> store) option"
type_synonym evaluator = "astNode \<Rightarrow> scope \<Rightarrow> store \<Rightarrow> Value outcome"

definition andThen :: "'a outcome \<Rightarrow> ('a \<Rightarrow> store \<Rightarrow> 'b outcome) \<Rightarrow> 'b outcome" where
  "andThen m f =
     (case m of
        None \<Rightarrow> None
      | Some (Return a, st) \<Rightarrow> f a st
      | Some (Error e, st) \<Rightarrow> Some (Error e, st)
      | Some (Panic msg, st) \<Rightarrow> Some (Panic msg, st))"

text \<open>\<^verbatim>\<open>obj[keyString] = val\<close>.\<close>

fun objPut :: "string \<Rightarrow> Value \<Rightarrow> (string \<times> Value) list \<Rightarrow> (string \<times> Value) list" where
  "objPut k v [] = [(k, v)]"
| "objPut k v ((k', v') # obj) = (if k' = k then (k, v) # obj else (k', v') # objPut k v obj)"

text \<open>
  The loops of \<^verbatim>\<open>evalExpr\<close>, over the evaluator \<open>ev\<close> that the recursive calls go to:
  the elements of a list literal and the arguments of a call (the same loop twice in the
  source), the entries of an object literal, the branches of an if expression, the
  expressions of a block.
\<close>

fun evalElems :: "evaluator \<Rightarrow> astNode list \<Rightarrow> scope \<Rightarrow> store \<Rightarrow> Value list outcome" where
  "evalElems ev [] sc st = Some (Return [], st)"
| "evalElems ev (elNode # rest) sc st =
     andThen (ev elNode sc st) (\<lambda>el st1.
     andThen (evalElems ev rest sc st1) (\<lambda>els st2. Some (Return (el # els), st2)))"

text \<open>The key of an entry: the name of a bare identifier, else the evaluated key.\<close>

fun entryKey :: "host \<Rightarrow> evaluator \<Rightarrow> astNode \<Rightarrow> scope \<Rightarrow> store \<Rightarrow> string outcome" where
  "entryKey h ev (identifierNode payload) sc st = Some (Return payload, st)"
| "entryKey h ev keyNode sc st =
     andThen (ev keyNode sc st) (\<lambda>key st1.
       case key of
         StringValue typedKey \<Rightarrow> Some (Return typedKey, st1)
       | IntValue typedKey \<Rightarrow> Some (Return (String' h (IntValue typedKey)), st1)
       | FloatValue typedKey \<Rightarrow> Some (Return (String' h (FloatValue typedKey)), st1)
       | _ \<Rightarrow>
           Some (Error (runtimeError
             (''Expected a string or number as object key, got '' @ String' h key)), st1))"

fun evalEntries ::
  "host \<Rightarrow> evaluator \<Rightarrow> (astNode \<times> astNode) list \<Rightarrow> (string \<times> Value) list \<Rightarrow> scope \<Rightarrow> store
     \<Rightarrow> (string \<times> Value) list outcome" where
  "evalEntries h ev [] obj sc st = Some (Return obj, st)"
| "evalEntries h ev ((keyNode, valNode) # rest) obj sc st =
     andThen (entryKey h ev keyNode sc st) (\<lambda>keyString st1.
     andThen (ev valNode sc st1) (\<lambda>val st2.
       evalEntries h ev rest (objPut keyString val obj) sc st2))"

fun evalBranches ::
  "host \<Rightarrow> evaluator \<Rightarrow> Value \<Rightarrow> (astNode \<times> astNode) list \<Rightarrow> scope \<Rightarrow> store \<Rightarrow> Value outcome" where
  "evalBranches h ev cond [] sc st = Some (Return NullValue, st)"
| "evalBranches h ev cond ((target, body) # rest) sc st =
     andThen (ev target sc st) (\<lambda>t st1.
       if Eq h cond t then ev body sc st1 else evalBranches h ev cond rest sc st1)"

fun evalExprs :: "evaluator \<Rightarrow> astNode list \<Rightarrow> Value \<Rightarrow> scope \<Rightarrow> store \<Rightarrow> Value outcome" where
  "evalExprs ev [] returnVal sc st = Some (Return returnVal, st)"
| "evalExprs ev (expr # rest) returnVal sc st =
     andThen (ev expr sc st) (\<lambda>v st1. evalExprs ev rest v sc st1)"

text \<open>
  \<^verbatim>\<open>for i, argName := range fn.defn.args { fnScope.put(argName, args[i]) }\<close>, run after
  \<^verbatim>\<open>args\<close> has been cut to the length of the parameter list, so that \<^verbatim>\<open>args[i]\<close> is in
  range.
\<close>

fun bindArgs :: "scope \<Rightarrow> string list \<Rightarrow> Value list \<Rightarrow> store \<Rightarrow> store" where
  "bindArgs fnScope [] args st = st"
| "bindArgs fnScope (argName # names) [] st = st"
| "bindArgs fnScope (argName # names) (arg # args) st =
     bindArgs fnScope names args (put fnScope argName arg st)"

text \<open>
  The call of a \<^verbatim>\<open>FnValue\<close>. \<^verbatim>\<open>args\<close> was made with length and capacity
  \<^verbatim>\<open>len(n.args)\<close>, so the slice expression \<^verbatim>\<open>args[:len(fn.defn.args)]\<close> panics when
  there are more parameters than arguments, and drops the arguments beyond the parameters
  otherwise.
\<close>

definition callFn ::
  "evaluator \<Rightarrow> string list \<Rightarrow> astNode \<Rightarrow> scope \<Rightarrow> Value list \<Rightarrow> store \<Rightarrow> Value outcome" where
  "callFn ev params body fsc args st =
     (if length args < length params then Some (Panic ''slice bounds out of range'', st)
      else
        (case newScope (Some fsc) st of
           (fnScope, st1) \<Rightarrow>
             ev body fnScope (bindArgs fnScope params (take (length params) args) st1)))"

text \<open>The property access on two evaluated operands.\<close>

fun propertyAccess :: "host \<Rightarrow> Value \<Rightarrow> Value \<Rightarrow> Value result" where
  "propertyAccess h (StringValue target) right =
     (case right of
        IntValue byteIndex \<Rightarrow>
          if sint byteIndex < 0 \<or> sint byteIndex > int (length target) then Return NullValue
          else if nat (sint byteIndex) < length target
            then Return (StringValue [target ! nat (sint byteIndex)])
            else Panic ''index out of range''
      | _ \<Rightarrow>
          Error (runtimeError
            (''Cannot index into string with non-integer index '' @ String' h right)))"
| "propertyAccess h (ListValue target) right =
     (case right of
        IntValue listIndex \<Rightarrow>
          if sint listIndex < 0 \<or> sint listIndex > int (length target) then Return NullValue
          else if nat (sint listIndex) < length target
            then Return (target ! nat (sint listIndex))
            else Panic ''index out of range''
      | _ \<Rightarrow>
          Error (runtimeError
            (''Cannot index into list with non-integer index '' @ String' h right)))"
| "propertyAccess h (ObjectValue target) right =
     (case map_of target (String' h right) of
        Some val \<Rightarrow> Return val
      | None \<Rightarrow> Return NullValue)"
| "propertyAccess h left right =
     Error (runtimeError
       (''Expected string, list, or object in left-hand side of property access, got ''
          @ String' h left))"

text \<open>
  The type switch of \<^verbatim>\<open>evalExpr\<close>; \<open>ev\<close> stands for the recursive calls, \<open>sc\<close> is the
  scope passed by value. The receiver \<^verbatim>\<open>c\<close> is not read. In the \<^verbatim>\<open>fnNode\<close> case the
  variable \<^verbatim>\<open>n\<close> of the case clause is a new variable at every evaluation, and \<^verbatim>\<open>&n\<close>
  is its address: the next one of the store.
\<close>

fun evalNode :: "host \<Rightarrow> evaluator \<Rightarrow> evaluator" where
  "evalNode h ev emptyNode sc st = Some (Return EmptyValue, st)"
| "evalNode h ev nullNode sc st = Some (Return NullValue, st)"
| "evalNode h ev (stringNode payload) sc st = Some (Return (StringValue payload), st)"
| "evalNode h ev (numberNode isInteger intPayload floatPayload) sc st =
     (if isInteger then Some (Return (IntValue intPayload), st)
      else Some (Return (FloatValue floatPayload), st))"
| "evalNode h ev (booleanNode payload) sc st = Some (Return (BoolValue payload), st)"
| "evalNode h ev (atomNode payload) sc st = Some (Return (AtomValue payload), st)"
| "evalNode h ev (listNode elems) sc st =
     andThen (evalElems ev elems sc st) (\<lambda>els st1. Some (Return (ListValue els), st1))"
| "evalNode h ev (objectNode entries) sc st =
     andThen (evalEntries h ev entries [] sc st) (\<lambda>obj st1. Some (Return (ObjectValue obj), st1))"
| "evalNode h ev (fnNode name args body) sc st =
     (let fn = FnValue (nextDefn st) name args body sc;
          st1 = st\<lparr>nextDefn := Suc (nextDefn st)\<rparr>
      in Some (Return fn, if name \<noteq> [] then put sc name fn st1 else st1))"
| "evalNode h ev (identifierNode payload) sc st =
     (case get st sc payload of
        Inr v \<Rightarrow> Some (Return v, st)
      | Inl err \<Rightarrow> Some (Error err, st))"
| "evalNode h ev (assignmentNode isLocal left right) sc st =
     andThen (ev right sc st) (\<lambda>assignedValue st1.
       case left of
         identifierNode payload \<Rightarrow>
           if isLocal then Some (Return assignedValue, put sc payload assignedValue st1)
           else
             (case update sc payload assignedValue st1 of
                (Some err, st2) \<Rightarrow> Some (Error err, st2)
              | (None, st2) \<Rightarrow> Some (Return assignedValue, st2))
       | listNode elems \<Rightarrow> Some (Panic ''list destructuring not implemented!'', st1)
       | objectNode entries \<Rightarrow> Some (Panic ''object destructuring not implemented!'', st1)
       | propertyAccessNode l r \<Rightarrow> Some (Panic ''assign to property not implemented!'', st1)
       | _ \<Rightarrow>
           Some (Panic (''Illegal left-hand side of assignment in ''
                   @ astString h (assignmentNode isLocal left right)), st1))"
| "evalNode h ev (propertyAccessNode left right) sc st =
     andThen (ev left sc st) (\<lambda>l st1.
     andThen (ev right sc st1) (\<lambda>r st2. Some (propertyAccess h l r, st2)))"
| "evalNode h ev (unaryNode op operand) sc st = Some (Panic ''unaryNode not implemented!'', st)"
| "evalNode h ev (binaryNode op l r) sc st = Some (Panic ''binaryNode not implemented!'', st)"
| "evalNode h ev (fnCallNode fn args) sc st =
     andThen (ev fn sc st) (\<lambda>maybeFn st1.
     andThen (evalElems ev args sc st1) (\<lambda>argVals st2.
       case maybeFn of
         FnValue d name params body fsc \<Rightarrow> callFn ev params body fsc argVals st2
       | BuiltinFnValue b \<Rightarrow> Some (builtinCall h b argVals, st2)
       | _ \<Rightarrow>
           Some (Error (runtimeError
             (String' h maybeFn @ '' is not a function and cannot be called'')), st2)))"
| "evalNode h ev (ifExprNode cond branches) sc st =
     andThen (ev cond sc st) (\<lambda>c st1. evalBranches h ev c branches sc st1)"
| "evalNode h ev (blockNode exprs) sc st =
     (case newScope (Some sc) st of
        (blockScope, st1) \<Rightarrow> evalExprs ev exprs NullValue blockScope st1)"

text \<open>
  \<^verbatim>\<open>evalExpr\<close>, with the depth of its recursion bounded: at depth \<open>0\<close> it has not
  returned.
\<close>

primrec evalExpr :: "host \<Rightarrow> nat \<Rightarrow> evaluator" where
  "evalExpr h 0 node sc st = None"
| "evalExpr h (Suc n) node sc st = evalNode h (evalExpr h n) node sc st"

definition evalProgram :: "host \<Rightarrow> nat \<Rightarrow> Context \<Rightarrow> astNode list \<Rightarrow> store \<Rightarrow> Value outcome" where
  "evalProgram h n c nodes st = evalExpr h n (blockNode nodes) (rootScope c) st"

section \<open>Notions used in the statements\<close>

text \<open>The addresses of the maps of a scope chain, the innermost scope first.\<close>

fun chain :: "scope \<Rightarrow> nat list" where
  "chain (Scope p a) = a # (case p of None \<Rightarrow> [] | Some psc \<Rightarrow> chain psc)"

text \<open>The nearest enclosing scope in which a name is bound: the address of its map.\<close>

definition defining :: "store \<Rightarrow> scope \<Rightarrow> string \<Rightarrow> nat option" where
  "defining st sc name = find (\<lambda>a. heap st a name \<noteq> None) (chain sc)"

text \<open>
  The patterns of some branches are evaluated in order, each returns a value, and the subject
  equals none of them: the store they leave.
\<close>

fun patternsMiss ::
  "host \<Rightarrow> evaluator \<Rightarrow> Value \<Rightarrow> (astNode \<times> astNode) list \<Rightarrow> scope \<Rightarrow> store \<Rightarrow> store option" where
  "patternsMiss h ev subject [] sc st = Some st"
| "patternsMiss h ev subject ((target, body) # rest) sc st =
     (case ev target sc st of
        Some (Return t, st1) \<Rightarrow>
          if Eq h subject t then None else patternsMiss h ev subject rest sc st1
      | _ \<Rightarrow> None)"

fun isIdentifier :: "astNode \<Rightarrow> bool" where
  "isIdentifier (identifierNode payload) = True"
| "isIdentifier node = False"

fun isFnValue :: "Value \<Rightarrow> bool" where
  "isFnValue (FnValue d name args body sc) = True"
| "isFnValue v = False"


text \<open>
  An outcome leaves at least as many allocated \<^verbatim>\<open>fnNode\<close> variables as the store it
  started from.
\<close>

definition grows :: "store \<Rightarrow> 'a outcome \<Rightarrow> bool" where
  "grows st out \<longleftrightarrow> (\<forall>r st'. out = Some (r, st') \<longrightarrow> nextDefn st \<le> nextDefn st')"



text \<open>
  An evaluation asked of the evaluator: the node, the scope and the store it starts in.
  \<open>thenCalls m k\<close> are the evaluations \<open>k\<close> that follow when \<open>m\<close> has returned a value;
  after an error, a panic or no return, none follows.
\<close>

type_synonym call = "astNode \<times> scope \<times> store"

definition thenCalls :: "'a outcome \<Rightarrow> ('a \<Rightarrow> store \<Rightarrow> 'b list) \<Rightarrow> 'b list" where
  "thenCalls m k = (case m of Some (Return a, st) \<Rightarrow> k a st | _ \<Rightarrow> [])"

text \<open>
  The evaluations that each loop of \<^verbatim>\<open>evalExpr\<close> and the type switch itself ask of \<open>ev\<close>,
  in the order of the source, each with the store it starts in: the elements of a list, the
  arguments of a call and the expressions of a block one after the other; the evaluated key
  and then the value of each object entry; the patterns of an if expression up to the first
  that the subject equals, and then the body of that branch; the body of a called function,
  in its new scope with the parameters bound.
\<close>

fun elemsCalls :: "evaluator \<Rightarrow> astNode list \<Rightarrow> scope \<Rightarrow> store \<Rightarrow> call list" where
  "elemsCalls ev [] sc st = []"
| "elemsCalls ev (elNode # rest) sc st =
     (elNode, sc, st) # thenCalls (ev elNode sc st) (\<lambda>el st1. elemsCalls ev rest sc st1)"

fun keyCalls :: "astNode \<Rightarrow> scope \<Rightarrow> store \<Rightarrow> call list" where
  "keyCalls (identifierNode payload) sc st = []"
| "keyCalls keyNode sc st = [(keyNode, sc, st)]"

fun entriesCalls ::
  "host \<Rightarrow> evaluator \<Rightarrow> (astNode \<times> astNode) list \<Rightarrow> scope \<Rightarrow> store \<Rightarrow> call list" where
  "entriesCalls h ev [] sc st = []"
| "entriesCalls h ev ((keyNode, valNode) # rest) sc st =
     keyCalls keyNode sc st @
     thenCalls (entryKey h ev keyNode sc st) (\<lambda>keyString st1.
       (valNode, sc, st1) #
       thenCalls (ev valNode sc st1) (\<lambda>val st2. entriesCalls h ev rest sc st2))"

fun branchesCalls ::
  "host \<Rightarrow> evaluator \<Rightarrow> Value \<Rightarrow> (astNode \<times> astNode) list \<Rightarrow> scope \<Rightarrow> store \<Rightarrow> call list" where
  "branchesCalls h ev cond [] sc st = []"
| "branchesCalls h ev cond ((target, body) # rest) sc st =
     (target, sc, st) #
     thenCalls (ev target sc st) (\<lambda>t st1.
       if Eq h cond t then [(body, sc, st1)] else branchesCalls h ev cond rest sc st1)"

definition callFnCalls ::
  "string list \<Rightarrow> astNode \<Rightarrow> scope \<Rightarrow> Value list \<Rightarrow> store \<Rightarrow> call list" where
  "callFnCalls params body fsc args st =
     (if length args < length params then []
      else
        (case newScope (Some fsc) st of
           (fnScope, st1) \<Rightarrow>
             [(body, fnScope, bindArgs fnScope params (take (length params) args) st1)]))"

fun nodeCalls :: "host \<Rightarrow> evaluator \<Rightarrow> astNode \<Rightarrow> scope \<Rightarrow> store \<Rightarrow> call list" where
  "nodeCalls h ev (listNode elems) sc st = elemsCalls ev elems sc st"
| "nodeCalls h ev (objectNode entries) sc st = entriesCalls h ev entries sc st"
| "nodeCalls h ev (assignmentNode isLocal left right) sc st = [(right, sc, st)]"
| "nodeCalls h ev (propertyAccessNode left right) sc st =
     (left, sc, st) # thenCalls (ev left sc st) (\<lambda>l st1. [(right, sc, st1)])"
| "nodeCalls h ev (fnCallNode fn args) sc st =
     (fn, sc, st) #
     thenCalls (ev fn sc st) (\<lambda>maybeFn st1.
       elemsCalls ev args sc st1 @
       thenCalls (evalElems ev args sc st1) (\<lambda>argVals st2.
         case maybeFn of
           FnValue d name params body fsc \<Rightarrow> callFnCalls params body fsc argVals st2
         | _ \<Rightarrow> []))"
| "nodeCalls h ev (ifExprNode cond branches) sc st =
     (cond, sc, st) # thenCalls (ev cond sc st) (\<lambda>c st1. branchesCalls h ev c branches sc st1)"
| "nodeCalls h ev (blockNode exprs) sc st =
     (case newScope (Some sc) st of (blockScope, st1) \<Rightarrow> elemsCalls ev exprs blockScope st1)"
| "nodeCalls h ev node sc st = []"

text \<open>
  All evaluations made by \<^verbatim>\<open>evalExpr\<close> at depth \<open>n\<close>, nested ones included, in the order
  in which they start.
\<close>

primrec events :: "host \<Rightarrow> nat \<Rightarrow> astNode \<Rightarrow> scope \<Rightarrow> store \<Rightarrow> call list" where
  "events h 0 node sc st = []"
| "events h (Suc n) node sc st =
     (node, sc, st) #
     concat (map (\<lambda>(e, sc', st'). events h n e sc' st') (nodeCalls h (evalExpr h n) node sc st))"

text \<open>
  The function values made by the evaluations of function literals among some evaluations,
  in their order: the literal evaluated in the store \<open>st\<close> takes the address
  \<open>nextDefn st\<close>.
\<close>

fun literalValue :: "call \<Rightarrow> Value option" where
  "literalValue (fnNode name args body, sc, st) = Some (FnValue (nextDefn st) name args body sc)"
| "literalValue (node, sc, st) = None"

definition literalValues :: "call list \<Rightarrow> Value list" where
  "literalValues cs = List.map_filter literalValue cs"

text \<open>The address held by a function value.\<close>

fun defnOf :: "Value \<Rightarrow> nat" where
  "defnOf (FnValue d name args body sc) = d"
| "defnOf v = 0"

text \<open>
  The allocation count that an outcome leaves, and the addresses of a run of function values:
  strictly increasing, from the count \<open>a\<close> on, and below the count that is left.
\<close>

definition endOf :: "'a outcome \<Rightarrow> nat option" where
  "endOf out = map_option (\<lambda>p. nextDefn (snd p)) out"

definition freshRun :: "nat \<Rightarrow> Value list \<Rightarrow> nat option \<Rightarrow> bool" where
  "freshRun a vs b \<longleftrightarrow>
     sorted_wrt (\<lambda>v w. defnOf v < defnOf w) vs \<and> (\<forall>v \<in> set vs. a \<le> defnOf v) \<and>
     (case b of None \<Rightarrow> True | Some b' \<Rightarrow> a \<le> b' \<and> (\<forall>v \<in> set vs. defnOf v < b'))"

text \<open>
  A host without native functions, on which the examples run; the examples use none of what
  it fixes.
\<close>

definition exampleHost :: host where
  "exampleHost =
     \<lparr>astString = (\<lambda>node. ''<node>''), FormatFloat = (\<lambda>f. ''<float>''),
      rangeOrder = (\<lambda>ss. ss), builtinString = (\<lambda>b. b), builtinEq = (\<lambda>b u. False),
      builtinCall = (\<lambda>b args. Return NullValue)\<rparr>"

text \<open>The store and the global scope of a new context.\<close>

definition globalScope :: scope where
  "globalScope = rootScope (fst (NewContext [] [] emptyStore))"

definition initialStore :: store where
  "initialStore = snd (NewContext [] [] emptyStore)"

text \<open>An integer literal.\<close>

definition intLit :: "int64 \<Rightarrow> astNode" where
  "intLit i = numberNode True i 0"

text \<open>
  The scope of a block entered from the global scope, and the store in which the global
  scope binds \<^verbatim>\<open>n\<close> to 10 (the state after \<^verbatim>\<open>n := 10\<close>, inside the block).
\<close>

definition innerScope :: scope where
  "innerScope = fst (newScope (Some globalScope) initialStore)"

definition outerStore :: store where
  "outerStore = put globalScope ''n'' (IntValue 10) (snd (newScope (Some globalScope) initialStore))"

text \<open>The display form of a string: \<^verbatim>\<open>StringValue.String\<close> wraps it in single quotes.\<close>

definition quoted :: "string \<Rightarrow> string" where
  "quoted s = [CHR 0x27] @ s @ [CHR 0x27]"

text \<open>
  Example programs: the subject \<^verbatim>\<open>[0, 5]\<close> and the four branches
  \<^verbatim>\<open>[0, 0] -> :A, [0, _] -> :B, [_, 0] -> :C, _ -> :D\<close>; the function literal
  \<^verbatim>\<open>fn(a) a\<close>; the object literals \<^verbatim>\<open>{a: 1, 'a': 2}\<close> and
  \<^verbatim>\<open>{'a': 1, '\'a\'': 2}\<close>, the second key of the latter being the three bytes
  quote, a, quote.
\<close>

definition exSubject :: astNode where
  "exSubject = listNode [intLit 0, intLit 5]"

definition exBranches :: "(astNode \<times> astNode) list" where
  "exBranches =
     [(listNode [intLit 0, intLit 0], atomNode ''A''),
      (listNode [intLit 0, emptyNode], atomNode ''B''),
      (listNode [emptyNode, intLit 0], atomNode ''C''),
      (emptyNode, atomNode ''D'')]"

definition exFn :: astNode where
  "exFn = fnNode [] [''a''] (identifierNode ''a'')"


definition exQuotedKeys :: astNode where
  "exQuotedKeys = objectNode [(stringNode ''a'', intLit 1), (stringNode (quoted ''a''), intLit 2)]"

text \<open>
  \<^verbatim>\<open>fn mk() fn(a) a\<close> followed by \<^verbatim>\<open>[mk(), mk()]\<close>: one function literal evaluated in
  two calls. The object literal \<^verbatim>\<open>{a: 1, b: 2, c: 3}\<close>.
\<close>

definition exTwice :: astNode where
  "exTwice =
     blockNode
       [fnNode ''mk'' [] exFn,
        listNode [fnCallNode (identifierNode ''mk'') [], fnCallNode (identifierNode ''mk'') []]]"


section \<open>Running the evaluator on examples\<close>

lemma evalExpr_numeral:
  "evalExpr h (numeral k) node sc st = evalNode h (evalExpr h (pred_numeral k)) node sc st"
  by (simp add: numeral_eq_Suc)

lemma FormatInt_7: "FormatInt (sint (7 :: int64)) = ''7''"
  by (simp add: FormatInt_def digitsOf.simps)

section \<open>Equality with the empty value\<close>

lemma Eq_Empty_receiver: "Eq h EmptyValue v"
  by simp

lemma Eq_Empty_operand:
  "\<not> isFnValue v \<Longrightarrow> (\<forall>b. v \<noteq> BuiltinFnValue b) \<Longrightarrow> Eq h v EmptyValue"
  by (cases v) simp_all

text \<open>
  C1. The claim is that \<open>v.Eq(Empty)\<close> holds for every value \<open>v\<close>, functions included.
  \<^verbatim>\<open>FnValue.Eq\<close> has no case for the empty value: a function compared with the empty value
  is unequal to it.
\<close>

theorem FnValue_Eq_Empty: "Eq h (FnValue d name args body sc) EmptyValue = False"
  by simp

section \<open>Indexing strings and lists\<close>

lemma index_String_in_range:
  "0 \<le> sint i \<Longrightarrow> sint i < int (length s) \<Longrightarrow>
   propertyAccess h (StringValue s) (IntValue i) = Return (StringValue [s ! nat (sint i)])"
  by simp

lemma index_List_in_range:
  "0 \<le> sint i \<Longrightarrow> sint i < int (length vs) \<Longrightarrow>
   propertyAccess h (ListValue vs) (IntValue i) = Return (vs ! nat (sint i))"
  by simp

lemma index_outside:
  "sint i < 0 \<or> int (length s) < sint i \<Longrightarrow>
   propertyAccess h (StringValue s) (IntValue i) = Return NullValue"
  "sint i < 0 \<or> int (length vs) < sint i \<Longrightarrow>
   propertyAccess h (ListValue vs) (IntValue i) = Return NullValue"
  by auto

lemma index_at_length:
  "sint i = int (length s) \<Longrightarrow>
   propertyAccess h (StringValue s) (IntValue i) = Panic ''index out of range''"
  "sint i = int (length vs) \<Longrightarrow>
   propertyAccess h (ListValue vs) (IntValue i) = Panic ''index out of range''"
  by auto

lemma index_not_Int:
  "(\<forall>i. right \<noteq> IntValue i) \<Longrightarrow>
   propertyAccess h (StringValue s) right =
     Error (runtimeError (''Cannot index into string with non-integer index '' @ String' h right))"
  "(\<forall>i. right \<noteq> IntValue i) \<Longrightarrow>
   propertyAccess h (ListValue vs) right =
     Error (runtimeError (''Cannot index into list with non-integer index '' @ String' h right))"
  by (cases right; simp)+

text \<open>
  C2. The claim is that a read at an index outside \<open>[0, length)\<close> returns \<open>Null\<close>, the
  index equal to the length included. The bounds test of the source lets the length through
  (\<^verbatim>\<open>>\<close> where \<^verbatim>\<open>>=\<close> is meant), and the read that follows is out of range: the string
  \<^verbatim>\<open>'abc'\<close> indexed at 3 panics, and so does a list of three elements.
\<close>

theorem index_at_length_panics:
  "propertyAccess h (StringValue ''abc'') (IntValue 3) = Panic ''index out of range'' \<and>
   propertyAccess h (ListValue [NullValue, NullValue, NullValue]) (IntValue 3)
     = Panic ''index out of range''"
  by simp

section \<open>Parts of the evaluator that are not written\<close>

text \<open>
  C7. The claim is that a binary operator expression evaluates its operands and applies the
  operator. The source panics at every binary node, before any operand is evaluated.
\<close>

theorem binaryNode_panics:
  "evalExpr h (Suc n) (binaryNode op l r) sc st = Some (Panic ''binaryNode not implemented!'', st)"
  by simp

text \<open>
  C8. The claim is that an assignment to a list pattern binds the names of the pattern to
  the elements of the list on the right. The source evaluates the right-hand side and then
  panics: \<^verbatim>\<open>[b, c] := [2, 3]\<close> binds nothing.
\<close>

theorem list_destructuring_panics:
  "evalExpr h 3
     (assignmentNode True (listNode [identifierNode ''b'', identifierNode ''c''])
        (listNode [intLit 2, intLit 3]))
     globalScope initialStore
   = Some (Panic ''list destructuring not implemented!'', initialStore)"
  by (simp add: eval_nat_numeral andThen_def intLit_def)

section \<open>Calls\<close>

lemma callFn_fewer:
  "length args < length params \<Longrightarrow>
   callFn ev params body fsc args st = Some (Panic ''slice bounds out of range'', st)"
  by (simp add: callFn_def)

lemma callFn_extra:
  "length params \<le> length args \<Longrightarrow>
   callFn ev params body fsc (args @ extra) st = callFn ev params body fsc args st"
  by (simp add: callFn_def)

text \<open>
  C3. The claim is that a call with fewer arguments than parameters binds the missing
  parameters to \<open>Null\<close>. The source cuts the argument slice to the number of parameters,
  which panics when the slice is shorter than that: after \<^verbatim>\<open>fn f(a) a\<close>, the call
  \<^verbatim>\<open>f()\<close> panics. Arguments beyond the parameters are dropped, as claimed.
\<close>

theorem call_with_missing_argument_panics:
  "map_option fst
     (evalExpr h 3
        (blockNode [fnNode ''f'' [''a''] (identifierNode ''a''),
                    fnCallNode (identifierNode ''f'') []])
        globalScope initialStore)
   = Some (Panic ''slice bounds out of range'')"
  by (simp add: eval_nat_numeral andThen_def newScope_def put_def callFn_def Let_def
        globalScope_def initialStore_def NewContext_def emptyStore_def)

section \<open>Assignment to an identifier\<close>

lemma update_found:
  "defining st sc name = Some a \<Longrightarrow>
   update sc name v st = (None, st\<lparr>heap := (heap st)(a := (heap st a)(name \<mapsto> v))\<rparr>)"
proof (induction sc rule: chain.induct)
  case (1 p b)
  show ?case
  proof (cases "heap st b name")
    case None
    with "1.prems" obtain psc where p: "p = Some psc" and d: "defining st psc name = Some a"
      by (cases p) (auto simp: defining_def)
    from "1.IH"[OF p d] None p show ?thesis by simp
  next
    case (Some old)
    with "1.prems" have "b = a" by (auto simp: defining_def)
    with Some show ?thesis by (simp add: fun_eq_iff)
  qed
qed

lemma update_missing:
  "defining st sc name = None \<Longrightarrow>
   update sc name v st = (Some (runtimeError (name @ '' is undefined'')), st)"
proof (induction sc rule: chain.induct)
  case (1 p b)
  from "1.prems" have None: "heap st b name = None"
    by (auto simp: defining_def split: if_splits)
  show ?case
  proof (cases p)
    case None
    with \<open>heap st b name = None\<close> show ?thesis by simp
  next
    case (Some psc)
    with "1.prems" None have "defining st psc name = None"
      by (auto simp: defining_def)
    from "1.IH"[OF Some this] None Some show ?thesis by simp
  qed
qed

text \<open>
  A scope made by the evaluator has a map of its own: the address of a new map is that of
  no map allocated before it.
\<close>

lemma newScope_own_map:
  "\<forall>a \<in> set (chain sc). a < nextMap st \<Longrightarrow> vars (fst (newScope (Some sc) st)) \<notin> set (chain sc)"
  by (auto simp: newScope_def)

lemma get_put_other:
  "vars sc \<notin> set (chain psc) \<Longrightarrow> get (put sc name v st) psc x = get st psc x"
proof (induction psc rule: chain.induct)
  case (1 p b)
  from "1.prems" have b: "vars sc \<noteq> b" by auto
  show ?case
  proof (cases p)
    case None
    with b show ?thesis by (simp add: put_def split: option.splits)
  next
    case (Some q)
    with "1.prems" have "vars sc \<notin> set (chain q)" by auto
    from "1.IH"[OF Some this] b Some show ?thesis by (simp add: put_def split: option.splits)
  qed
qed

text \<open>
  C5. An assignment to an identifier first evaluates its right-hand side. The nonlocal
  form then overwrites the binding in the nearest enclosing scope that has the name, and
  changes nothing else; when no scope of the chain has the name it fails with the error
  \<^verbatim>\<open>name is undefined\<close> and leaves the store as the right-hand side left it. The
  local form writes the map of the innermost scope only: every other map is unchanged, and
  so is every lookup through a scope whose chain does not share that map.
\<close>

theorem assignment_to_identifier:
  "evalExpr h n right sc st = Some (Return v, st1) \<longrightarrow>
     (defining st1 sc name = Some a \<longrightarrow>
        evalExpr h (Suc n) (assignmentNode False (identifierNode name) right) sc st
          = Some (Return v, st1\<lparr>heap := (heap st1)(a := (heap st1 a)(name \<mapsto> v))\<rparr>))
   \<and> (defining st1 sc name = None \<longrightarrow>
        evalExpr h (Suc n) (assignmentNode False (identifierNode name) right) sc st
          = Some (Error (runtimeError (name @ '' is undefined'')), st1))
   \<and> evalExpr h (Suc n) (assignmentNode True (identifierNode name) right) sc st
          = Some (Return v, put sc name v st1)
   \<and> heap (put sc name v st1) (vars sc) = (heap st1 (vars sc))(name \<mapsto> v)
   \<and> (\<forall>b. b \<noteq> vars sc \<longrightarrow> heap (put sc name v st1) b = heap st1 b)
   \<and> (\<forall>psc x. vars sc \<notin> set (chain psc) \<longrightarrow> get (put sc name v st1) psc x = get st1 psc x)"
proof (intro impI conjI allI)
  assume ev: "evalExpr h n right sc st = Some (Return v, st1)"
  { assume "defining st1 sc name = Some a"
    from update_found[OF this] ev
    show "evalExpr h (Suc n) (assignmentNode False (identifierNode name) right) sc st
          = Some (Return v, st1\<lparr>heap := (heap st1)(a := (heap st1 a)(name \<mapsto> v))\<rparr>)"
      by (simp add: andThen_def) }
  { assume "defining st1 sc name = None"
    from update_missing[OF this] ev
    show "evalExpr h (Suc n) (assignmentNode False (identifierNode name) right) sc st
          = Some (Error (runtimeError (name @ '' is undefined'')), st1)"
      by (simp add: andThen_def) }
  from ev show "evalExpr h (Suc n) (assignmentNode True (identifierNode name) right) sc st
          = Some (Return v, put sc name v st1)"
    by (simp add: andThen_def)
  show "heap (put sc name v st1) (vars sc) = (heap st1 (vars sc))(name \<mapsto> v)"
    by (simp add: put_def)
  { fix b assume "b \<noteq> vars sc"
    then show "heap (put sc name v st1) b = heap st1 b" by (simp add: put_def) }
  { fix psc x assume "vars sc \<notin> set (chain psc)"
    then show "get (put sc name v st1) psc x = get st1 psc x" by (rule get_put_other) }
qed

text \<open>
  The example of the language description: \<^verbatim>\<open>n\<close> is bound to 10 in the global
  scope; inside a block, \<^verbatim>\<open>n <- 30\<close> overwrites the global binding, \<^verbatim>\<open>m <- 30\<close>
  fails, and \<^verbatim>\<open>n := 30\<close> leaves the global \<^verbatim>\<open>n\<close> at 10.
\<close>

theorem assignment_to_identifier_witness:
  "evalExpr exampleHost 1 (intLit 30) innerScope outerStore
     = Some (Return (IntValue 30), outerStore)
   \<and> defining outerStore innerScope ''n'' = Some (vars globalScope)
   \<and> evalExpr exampleHost 2 (assignmentNode False (identifierNode ''n'') (intLit 30))
       innerScope outerStore
       = Some (Return (IntValue 30),
           outerStore\<lparr>heap := (heap outerStore)
             (vars globalScope := (heap outerStore (vars globalScope))(''n'' \<mapsto> IntValue 30))\<rparr>)
   \<and> defining outerStore innerScope ''m'' = None
   \<and> evalExpr exampleHost 2 (assignmentNode False (identifierNode ''m'') (intLit 30))
       innerScope outerStore
       = Some (Error (runtimeError ''m is undefined''), outerStore)
   \<and> evalExpr exampleHost 2 (assignmentNode True (identifierNode ''n'') (intLit 30))
       innerScope outerStore
       = Some (Return (IntValue 30), put innerScope ''n'' (IntValue 30) outerStore)
   \<and> vars innerScope \<notin> set (chain globalScope)
   \<and> get (put innerScope ''n'' (IntValue 30) outerStore) globalScope ''n'' = Inr (IntValue 10)
   \<and> get (put innerScope ''n'' (IntValue 30) outerStore) innerScope ''n'' = Inr (IntValue 30)"
proof -
  have r: "evalExpr exampleHost 1 (intLit 30) innerScope outerStore
     = Some (Return (IntValue 30), outerStore)"
    by (simp add: intLit_def)
  have dn: "defining outerStore innerScope ''n'' = Some (vars globalScope)"
    by (simp add: defining_def globalScope_def initialStore_def NewContext_def emptyStore_def
        newScope_def innerScope_def outerStore_def put_def)
  have dm: "defining outerStore innerScope ''m'' = None"
    by (simp add: defining_def globalScope_def initialStore_def NewContext_def emptyStore_def
        newScope_def innerScope_def outerStore_def put_def)
  have anc: "vars innerScope \<notin> set (chain globalScope)"
    by (simp add: globalScope_def initialStore_def NewContext_def emptyStore_def
        newScope_def innerScope_def outerStore_def put_def)
  have g0: "get outerStore globalScope ''n'' = Inr (IntValue 10)"
    by (simp add: globalScope_def initialStore_def NewContext_def emptyStore_def
        newScope_def innerScope_def outerStore_def put_def)
  note n = assignment_to_identifier[where h = exampleHost and n = 1 and right = "intLit 30"
      and sc = innerScope and st = outerStore and v = "IntValue 30" and ?st1.0 = outerStore
      and name = "''n''" and a = "vars globalScope"]
  note m = assignment_to_identifier[where h = exampleHost and n = 1 and right = "intLit 30"
      and sc = innerScope and st = outerStore and v = "IntValue 30" and ?st1.0 = outerStore
      and name = "''m''" and a = 0]
  from n r dn have c1: "evalExpr exampleHost (Suc 1) (assignmentNode False (identifierNode ''n'') (intLit 30))
       innerScope outerStore
       = Some (Return (IntValue 30),
           outerStore\<lparr>heap := (heap outerStore)
             (vars globalScope := (heap outerStore (vars globalScope))(''n'' \<mapsto> IntValue 30))\<rparr>)"
    by blast
  from m r dm have c2: "evalExpr exampleHost (Suc 1) (assignmentNode False (identifierNode ''m'') (intLit 30))
       innerScope outerStore
       = Some (Error (runtimeError (''m'' @ '' is undefined'')), outerStore)"
    by blast
  from n r have c3: "evalExpr exampleHost (Suc 1) (assignmentNode True (identifierNode ''n'') (intLit 30))
       innerScope outerStore
       = Some (Return (IntValue 30), put innerScope ''n'' (IntValue 30) outerStore)"
    by blast
  from n r anc have c4: "get (put innerScope ''n'' (IntValue 30) outerStore) globalScope ''n''
      = get outerStore globalScope ''n''"
    by blast
  have c5: "get (put innerScope ''n'' (IntValue 30) outerStore) innerScope ''n'' = Inr (IntValue 30)"
    by (simp add: globalScope_def initialStore_def NewContext_def emptyStore_def
        newScope_def innerScope_def outerStore_def put_def)
  have two: "Suc 1 = 2" by simp
  from r dn dm anc c1 c2 c3 c4 g0 c5 show ?thesis
    unfolding two by simp
qed

section \<open>The if expression\<close>

lemma evalBranches_miss:
  "patternsMiss h ev c pre sc st = Some st1 \<Longrightarrow>
   evalBranches h ev c (pre @ rest) sc st = evalBranches h ev c rest sc st1"
proof (induction pre arbitrary: st)
  case Nil
  then show ?case by simp
next
  case (Cons branch pre)
  obtain target body where branch: "branch = (target, body)" by (cases branch)
  from Cons.prems obtain t st' where
    t: "ev target sc st = Some (Return t, st')" "\<not> Eq h c t"
       "patternsMiss h ev c pre sc st' = Some st1"
    unfolding branch
    by (auto split: option.splits result.splits if_splits)
  from Cons.IH[OF t(3)] t(1,2) show ?case unfolding branch
    by (simp add: andThen_def)
qed

text \<open>
  C4. An if expression evaluates its subject once, then the patterns of its branches in
  order, each in the store the previous one left. At the first pattern that the subject
  equals, the result is that of the branch's body, evaluated in the store left by that
  pattern: the branches after it do not enter into the result or the store. When the
  subject equals no pattern the result is \<open>Null\<close>, in the store left by the last
  pattern.
\<close>

theorem ifMatch_first_match:
  "evalExpr h n cond sc st = Some (Return subject, st0) \<longrightarrow>
     (patternsMiss h (evalExpr h n) subject pre sc st0 = Some st1 \<and>
      evalExpr h n target sc st1 = Some (Return t, st2) \<and> Eq h subject t \<longrightarrow>
        evalExpr h (Suc n) (ifExprNode cond (pre @ (target, body) # post)) sc st
          = evalExpr h n body sc st2)
   \<and> (patternsMiss h (evalExpr h n) subject branches sc st0 = Some st1 \<longrightarrow>
        evalExpr h (Suc n) (ifExprNode cond branches) sc st = Some (Return NullValue, st1))"
proof (intro impI conjI)
  assume c: "evalExpr h n cond sc st = Some (Return subject, st0)"
  { assume "patternsMiss h (evalExpr h n) subject pre sc st0 = Some st1 \<and>
      evalExpr h n target sc st1 = Some (Return t, st2) \<and> Eq h subject t"
    then have miss: "patternsMiss h (evalExpr h n) subject pre sc st0 = Some st1"
      and t: "evalExpr h n target sc st1 = Some (Return t, st2)" "Eq h subject t"
      by simp_all
    from evalBranches_miss[OF miss, of "(target, body) # post"] t c
    show "evalExpr h (Suc n) (ifExprNode cond (pre @ (target, body) # post)) sc st
          = evalExpr h n body sc st2"
      by (simp add: andThen_def) }
  { assume miss: "patternsMiss h (evalExpr h n) subject branches sc st0 = Some st1"
    from evalBranches_miss[OF miss, of "[]"] c
    show "evalExpr h (Suc n) (ifExprNode cond branches) sc st = Some (Return NullValue, st1)"
      by (simp add: andThen_def) }
qed

text \<open>
  The subject \<^verbatim>\<open>[0, 5]\<close> misses \<^verbatim>\<open>[0, 0]\<close> and matches \<^verbatim>\<open>[0, _]\<close>: the result
  is \<^verbatim>\<open>:B\<close>. With the first branch alone the result is \<open>Null\<close>.
\<close>

theorem ifMatch_first_match_witness:
  "evalExpr exampleHost 2 exSubject globalScope initialStore
     = Some (Return (ListValue [IntValue 0, IntValue 5]), initialStore)
   \<and> patternsMiss exampleHost (evalExpr exampleHost 2) (ListValue [IntValue 0, IntValue 5])
       (take 1 exBranches) globalScope initialStore = Some initialStore
   \<and> evalExpr exampleHost 2 (listNode [intLit 0, emptyNode]) globalScope initialStore
       = Some (Return (ListValue [IntValue 0, EmptyValue]), initialStore)
   \<and> Eq exampleHost (ListValue [IntValue 0, IntValue 5]) (ListValue [IntValue 0, EmptyValue])
   \<and> evalExpr exampleHost 3 (ifExprNode exSubject exBranches) globalScope initialStore
       = Some (Return (AtomValue ''B''), initialStore)
   \<and> evalExpr exampleHost 3 (ifExprNode exSubject (take 1 exBranches)) globalScope initialStore
       = Some (Return NullValue, initialStore)"
proof -
  let ?v = "ListValue [IntValue 0, IntValue 5]"
  have s: "evalExpr exampleHost 2 exSubject globalScope initialStore = Some (Return ?v, initialStore)"
    by (simp add: exSubject_def intLit_def evalExpr_numeral andThen_def)
  have m: "patternsMiss exampleHost (evalExpr exampleHost 2) ?v (take 1 exBranches)
      globalScope initialStore = Some initialStore"
    by (simp add: exBranches_def intLit_def evalExpr_numeral andThen_def)
  have t: "evalExpr exampleHost 2 (listNode [intLit 0, emptyNode]) globalScope initialStore
       = Some (Return (ListValue [IntValue 0, EmptyValue]), initialStore)"
    by (simp add: intLit_def evalExpr_numeral andThen_def)
  have e: "Eq exampleHost ?v (ListValue [IntValue 0, EmptyValue])"
    by simp
  have split: "exBranches = take 1 exBranches @ (listNode [intLit 0, emptyNode], atomNode ''B'')
      # drop 2 exBranches"
    by (simp add: exBranches_def)
  from ifMatch_first_match[where h = exampleHost and n = 2 and cond = exSubject
      and sc = globalScope and st = initialStore and subject = ?v and ?st0.0 = initialStore
      and pre = "take 1 exBranches" and ?st1.0 = initialStore
      and target = "listNode [intLit 0, emptyNode]" and t = "ListValue [IntValue 0, EmptyValue]"
      and ?st2.0 = initialStore and body = "atomNode ''B''" and post = "drop 2 exBranches"
      and branches = "take 1 exBranches"] s m t e
  have r: "evalExpr exampleHost (Suc 2)
        (ifExprNode exSubject
           (take 1 exBranches @ (listNode [intLit 0, emptyNode], atomNode ''B'') # drop 2 exBranches))
        globalScope initialStore
      = evalExpr exampleHost 2 (atomNode ''B'') globalScope initialStore"
    and n: "evalExpr exampleHost (Suc 2) (ifExprNode exSubject (take 1 exBranches))
        globalScope initialStore = Some (Return NullValue, initialStore)"
    by blast+
  from r have r': "evalExpr exampleHost 3 (ifExprNode exSubject exBranches) globalScope initialStore
       = Some (Return (AtomValue ''B''), initialStore)"
    unfolding split[symmetric] by (simp add: evalExpr_numeral numeral_3_eq_3 del: evalExpr.simps)
  from n have n': "evalExpr exampleHost 3 (ifExprNode exSubject (take 1 exBranches))
        globalScope initialStore = Some (Return NullValue, initialStore)"
    by (simp only: numeral_3_eq_3 numeral_2_eq_2)
  from s m t e r' n' show ?thesis by (intro conjI)
qed

section \<open>Object literals\<close>

lemma map_of_objPut: "map_of (objPut k v obj) = (map_of obj)(k \<mapsto> v)"
  by (induction obj) (auto simp: fun_eq_iff)


lemma length_objPut:
  "length (objPut k v obj) = (if k \<in> fst ` set obj then length obj else Suc (length obj))"
  by (induction obj) force+


lemma entryKey_identifier:
  "entryKey h ev (identifierNode k) sc st = Some (Return k, st)"
  by simp

lemma entryKey_evaluated:
  "\<not> isIdentifier keyNode \<Longrightarrow> ev keyNode sc st = Some (Return key, st1) \<Longrightarrow>
   entryKey h ev keyNode sc st =
     (case key of
        StringValue s \<Rightarrow> Some (Return s, st1)
      | IntValue i \<Rightarrow> Some (Return (FormatInt (sint i)), st1)
      | FloatValue f \<Rightarrow> Some (Return (FormatFloat h f), st1)
      | _ \<Rightarrow> Some (Error (runtimeError
                 (''Expected a string or number as object key, got '' @ String' h key)), st1))"
  by (cases keyNode) (simp_all add: andThen_def split: Value.splits)







section \<open>Allocation of function definitions\<close>

lemma grows_None [simp]: "grows st None"
  by (simp add: grows_def)

lemma grows_Some [simp]: "grows st (Some (r, st')) \<longleftrightarrow> nextDefn st \<le> nextDefn st'"
  by (simp add: grows_def)

lemma grows_trans: "nextDefn st \<le> nextDefn st1 \<Longrightarrow> grows st1 out \<Longrightarrow> grows st out"
  by (auto simp: grows_def intro: order_trans)

lemma grows_andThen:
  assumes m: "grows st m"
    and f: "\<And>a st1. m = Some (Return a, st1) \<Longrightarrow> grows st1 (f a st1)"
  shows "grows st (andThen m f)"
proof (cases m)
  case None
  then show ?thesis by (simp add: andThen_def)
next
  case (Some p)
  obtain x st1 where p: "p = (x, st1)" by (cases p)
  from m Some p have le: "nextDefn st \<le> nextDefn st1" by simp
  show ?thesis
  proof (cases x)
    case (Return a)
    with Some p f[of a st1] have "grows st1 (andThen m f)" by (simp add: andThen_def)
    with le show ?thesis by (rule grows_trans)
  next
    case (Error e)
    with Some p le show ?thesis by (simp add: andThen_def)
  next
    case (Panic msg)
    with Some p le show ?thesis by (simp add: andThen_def)
  qed
qed

lemma nextDefn_put [simp]: "nextDefn (put sc name v st) = nextDefn st"
  by (simp add: put_def)

lemma nextDefn_update [simp]: "nextDefn (snd (update sc name v st)) = nextDefn st"
  by (induction sc name v st rule: update.induct) (simp split: option.splits)

lemma nextDefn_newScope [simp]: "nextDefn (snd (newScope p st)) = nextDefn st"
  by (simp add: newScope_def)

lemma nextDefn_bindArgs [simp]: "nextDefn (bindArgs sc names args st) = nextDefn st"
  by (induction sc names args st rule: bindArgs.induct) simp_all

lemma grows_evalElems:
  assumes ev: "\<And>e sc st. grows st (ev e sc st)"
  shows "grows st (evalElems ev es sc st)"
proof (induction es arbitrary: st)
  case Nil
  show ?case by simp
next
  case (Cons e es)
  show ?case
    by (simp, intro grows_andThen ev Cons.IH) simp
qed

lemma grows_entryKey:
  assumes ev: "\<And>e sc st. grows st (ev e sc st)"
  shows "grows st (entryKey h ev keyNode sc st)"
proof (cases "isIdentifier keyNode")
  case True
  then show ?thesis by (cases keyNode) simp_all
next
  case False
  then have "entryKey h ev keyNode sc st =
     andThen (ev keyNode sc st) (\<lambda>key st1.
       case key of
         StringValue typedKey \<Rightarrow> Some (Return typedKey, st1)
       | IntValue typedKey \<Rightarrow> Some (Return (String' h (IntValue typedKey)), st1)
       | FloatValue typedKey \<Rightarrow> Some (Return (String' h (FloatValue typedKey)), st1)
       | _ \<Rightarrow>
           Some (Error (runtimeError
             (''Expected a string or number as object key, got '' @ String' h key)), st1))"
    by (cases keyNode) simp_all
  also have "grows st \<dots>"
    by (intro grows_andThen ev) (simp split: Value.splits)
  finally show ?thesis .
qed

lemma grows_evalEntries:
  assumes ev: "\<And>e sc st. grows st (ev e sc st)"
  shows "grows st (evalEntries h ev entries obj sc st)"
proof (induction entries arbitrary: obj st)
  case Nil
  show ?case by simp
next
  case (Cons entry entries)
  obtain keyNode valNode where entry: "entry = (keyNode, valNode)" by (cases entry)
  show ?case unfolding entry
    by (simp, intro grows_andThen grows_entryKey ev Cons.IH)
qed

lemma grows_evalBranches:
  assumes ev: "\<And>e sc st. grows st (ev e sc st)"
  shows "grows st (evalBranches h ev c branches sc st)"
proof (induction branches arbitrary: st)
  case Nil
  show ?case by simp
next
  case (Cons branch branches)
  obtain target body where branch: "branch = (target, body)" by (cases branch)
  show ?case unfolding branch
    by (simp, intro grows_andThen ev) (simp add: ev Cons.IH)
qed

lemma grows_evalExprs:
  assumes ev: "\<And>e sc st. grows st (ev e sc st)"
  shows "grows st (evalExprs ev exprs returnVal sc st)"
proof (induction exprs arbitrary: returnVal st)
  case Nil
  show ?case by simp
next
  case (Cons e exprs)
  show ?case
    by (simp, intro grows_andThen ev Cons.IH)
qed

lemma grows_callFn:
  assumes ev: "\<And>e sc st. grows st (ev e sc st)"
  shows "grows st (callFn ev params body fsc args st)"
proof (cases "length args < length params")
  case True
  then show ?thesis by (simp add: callFn_def)
next
  case False
  obtain fnScope st1 where ns: "newScope (Some fsc) st = (fnScope, st1)"
    by (cases "newScope (Some fsc) st")
  then have "nextDefn st1 = nextDefn st"
    using nextDefn_newScope[of "Some fsc" st] by simp
  then have "nextDefn st \<le> nextDefn (bindArgs fnScope params (take (length params) args) st1)"
    by simp
  from grows_trans[OF this ev] False ns show ?thesis
    by (simp add: callFn_def)
qed

lemma grows_evalNode:
  assumes ev: "\<And>e sc st. grows st (ev e sc st)"
  shows "grows st (evalNode h ev node sc st)"
proof (cases node)
  case (listNode elems)
  show ?thesis unfolding listNode
    by (simp, intro grows_andThen grows_evalElems ev) simp
next
  case (objectNode entries)
  show ?thesis unfolding objectNode
    by (simp, intro grows_andThen grows_evalEntries ev) simp
next
  case (fnNode name args body)
  show ?thesis unfolding fnNode by (simp add: Let_def)
next
  case (identifierNode payload)
  show ?thesis unfolding identifierNode by (simp split: sum.splits)
next
  case (assignmentNode isLocal left right)
  have "grows st1 (case update sc payload v st1 of
                (Some err, st2) \<Rightarrow> Some (Error err, st2)
              | (None, st2) \<Rightarrow> Some (Return v, st2))" for st1 payload v
    using nextDefn_update[of sc payload v st1]
    by (cases "update sc payload v st1") (simp split: option.splits)
  then show ?thesis unfolding assignmentNode
    by (simp, intro grows_andThen ev) (simp split: astNode.splits)
next
  case (propertyAccessNode left right)
  show ?thesis unfolding propertyAccessNode
    by (simp, intro grows_andThen ev) simp
next
  case (fnCallNode fn args)
  show ?thesis unfolding fnCallNode
    by (simp, intro grows_andThen grows_evalElems ev)
       (simp add: grows_callFn ev split: Value.splits)
next
  case (ifExprNode cond branches)
  show ?thesis unfolding ifExprNode
    by (simp, intro grows_andThen grows_evalBranches ev)
next
  case (blockNode exprs)
  obtain blockScope st1 where ns: "newScope (Some sc) st = (blockScope, st1)"
    by (cases "newScope (Some sc) st")
  then have "nextDefn st \<le> nextDefn st1"
    using nextDefn_newScope[of "Some sc" st] by simp
  from grows_trans[OF this grows_evalExprs, of ev] ns ev show ?thesis unfolding blockNode
    by simp
qed simp_all

lemma grows_evalExpr: "grows st (evalExpr h n node sc st)"
proof (induction n arbitrary: node sc st)
  case 0
  show ?case by simp
next
  case (Suc n)
  show ?case by (simp, rule grows_evalNode) (rule Suc.IH)
qed

lemma FnValue_Eq_sequence:
  "Eq h (FnValue d name args body sc) (FnValue d' name' args' body' sc') = (d = d')
   \<and> Eq h (FnValue d name args body sc) (FnValue d name args body sc)
   \<and> (\<not> isFnValue u \<longrightarrow> \<not> Eq h (FnValue d name args body sc) u)
   \<and> (evalExpr h (Suc n) (fnNode name args body) sc st = Some (Return v1, st1) \<longrightarrow>
        Eq h v1 v1)
   \<and> (evalExpr h (Suc n) (fnNode name args body) sc st = Some (Return v1, st1) \<and>
      evalExpr h k e sc2 st1 = Some (r, st2) \<and>
      evalExpr h (Suc m) (fnNode name args body) sc3 st2 = Some (Return v2, st3) \<longrightarrow>
        \<not> Eq h v1 v2 \<and> \<not> Eq h v2 v1)
   \<and> (evalExpr h (Suc n) (fnNode name args body) sc st = Some (Return v1, st1) \<and>
      evalExpr h (Suc m) (fnNode name args body) sc3 st1 = Some (Return v2, st3) \<longrightarrow>
        \<not> Eq h v1 v2 \<and> \<not> Eq h v2 v1)"
proof -
  have other: "\<not> Eq h (FnValue d name args body sc) u" if "\<not> isFnValue u"
    using that by (cases u) simp_all
  have first: "v1 = FnValue (nextDefn st) name args body sc \<and> nextDefn st1 = Suc (nextDefn st)"
    if "evalExpr h (Suc n) (fnNode name args body) sc st = Some (Return v1, st1)" for n sc st v1 st1
    using that by (auto simp: Let_def split: if_splits)
  have self: "Eq h v1 v1"
    if "evalExpr h (Suc n) (fnNode name args body) sc st = Some (Return v1, st1)"
    using first[OF that] by simp
  have later: "\<not> Eq h v1 v2 \<and> \<not> Eq h v2 v1"
    if a: "evalExpr h (Suc n) (fnNode name args body) sc st = Some (Return v1, st1)"
      and le: "nextDefn st1 \<le> nextDefn st2"
      and b: "evalExpr h (Suc m) (fnNode name args body) sc3 st2 = Some (Return v2, st3)" for st2
    using first[OF a] first[OF b] le by auto
  have between: "\<not> Eq h v1 v2 \<and> \<not> Eq h v2 v1"
    if a: "evalExpr h (Suc n) (fnNode name args body) sc st = Some (Return v1, st1)"
      and mid: "evalExpr h k e sc2 st1 = Some (r, st2)"
      and b: "evalExpr h (Suc m) (fnNode name args body) sc3 st2 = Some (Return v2, st3)"
  proof -
    from grows_evalExpr[of st1 h k e sc2] mid have "nextDefn st1 \<le> nextDefn st2"
      by (simp add: grows_def)
    with a b show ?thesis by (intro later)
  qed
  have direct: "\<not> Eq h v1 v2 \<and> \<not> Eq h v2 v1"
    if a: "evalExpr h (Suc n) (fnNode name args body) sc st = Some (Return v1, st1)"
      and b: "evalExpr h (Suc m) (fnNode name args body) sc3 st1 = Some (Return v2, st3)"
    using later[OF a order_refl b] .
  show ?thesis
  proof (intro conjI)
    show "Eq h (FnValue d name args body sc) (FnValue d' name' args' body' sc') = (d = d')"
      by simp
    show "Eq h (FnValue d name args body sc) (FnValue d name args body sc)"
      by simp
    show "\<not> isFnValue u \<longrightarrow> \<not> Eq h (FnValue d name args body sc) u"
      using other by blast
    show "evalExpr h (Suc n) (fnNode name args body) sc st = Some (Return v1, st1) \<longrightarrow>
        Eq h v1 v1"
      using self by blast
    show "evalExpr h (Suc n) (fnNode name args body) sc st = Some (Return v1, st1) \<and>
      evalExpr h k e sc2 st1 = Some (r, st2) \<and>
      evalExpr h (Suc m) (fnNode name args body) sc3 st2 = Some (Return v2, st3) \<longrightarrow>
        \<not> Eq h v1 v2 \<and> \<not> Eq h v2 v1"
      using between by blast
    show "evalExpr h (Suc n) (fnNode name args body) sc st = Some (Return v1, st1) \<and>
      evalExpr h (Suc m) (fnNode name args body) sc3 st1 = Some (Return v2, st3) \<longrightarrow>
        \<not> Eq h v1 v2 \<and> \<not> Eq h v2 v1"
      using direct by blast
  qed
qed

subsection \<open>The evaluations made by the evaluator\<close>

text \<open>
  \<^verbatim>\<open>evalExpr\<close> asks of its recursive calls the evaluations listed by \<open>nodeCalls\<close> and
  no other: an evaluator that agrees on them gives the same outcome.
\<close>

lemma set_thenCalls:
  "x \<in> set (thenCalls m k) \<longleftrightarrow> (\<exists>a st1. m = Some (Return a, st1) \<and> x \<in> set (k a st1))"
  by (auto simp: thenCalls_def split: option.splits result.splits)

lemma andThen_agree:
  "m' = m \<Longrightarrow> (\<And>a st1. m = Some (Return a, st1) \<Longrightarrow> f' a st1 = f a st1) \<Longrightarrow>
   andThen m' f' = andThen m f"
  by (auto simp: andThen_def split: option.splits result.splits)

lemma evalElems_agree:
  "(\<And>e sc' st'. (e, sc', st') \<in> set (elemsCalls ev es sc st) \<Longrightarrow> ev' e sc' st' = ev e sc' st')
   \<Longrightarrow> evalElems ev' es sc st = evalElems ev es sc st"
proof (induction es arbitrary: st)
  case Nil
  show ?case by simp
next
  case (Cons e es)
  have head: "ev' e sc st = ev e sc st" by (rule Cons.prems) simp
  have rest: "evalElems ev' es sc st1 = evalElems ev es sc st1"
    if "ev e sc st = Some (Return el, st1)" for el st1
    by (rule Cons.IH, rule Cons.prems) (use that in \<open>simp add: set_thenCalls\<close>)
  show ?case
    by (simp, rule andThen_agree[OF head]) (simp add: rest)
qed

lemma evalExprs_agree:
  "(\<And>e sc' st'. (e, sc', st') \<in> set (elemsCalls ev es sc st) \<Longrightarrow> ev' e sc' st' = ev e sc' st')
   \<Longrightarrow> evalExprs ev' es rv sc st = evalExprs ev es rv sc st"
proof (induction es arbitrary: rv st)
  case Nil
  show ?case by simp
next
  case (Cons e es)
  have head: "ev' e sc st = ev e sc st" by (rule Cons.prems) simp
  have rest: "evalExprs ev' es v sc st1 = evalExprs ev es v sc st1"
    if "ev e sc st = Some (Return v, st1)" for v st1
    by (rule Cons.IH, rule Cons.prems) (use that in \<open>simp add: set_thenCalls\<close>)
  show ?case
    by (simp, rule andThen_agree[OF head]) (simp add: rest)
qed

lemma entryKey_agree:
  "(\<And>e sc' st'. (e, sc', st') \<in> set (keyCalls keyNode sc st) \<Longrightarrow> ev' e sc' st' = ev e sc' st')
   \<Longrightarrow> entryKey h ev' keyNode sc st = entryKey h ev keyNode sc st"
  by (cases keyNode) simp_all

lemma evalEntries_agree:
  "(\<And>e sc' st'. (e, sc', st') \<in> set (entriesCalls h ev entries sc st)
      \<Longrightarrow> ev' e sc' st' = ev e sc' st')
   \<Longrightarrow> evalEntries h ev' entries obj sc st = evalEntries h ev entries obj sc st"
proof (induction entries arbitrary: obj st)
  case Nil
  show ?case by simp
next
  case (Cons entry entries)
  obtain keyNode valNode where entry: "entry = (keyNode, valNode)" by (cases entry)
  note prems = Cons.prems[unfolded entry]
  have key: "entryKey h ev' keyNode sc st = entryKey h ev keyNode sc st"
    by (rule entryKey_agree, rule prems) simp
  have val: "ev' valNode sc st1 = ev valNode sc st1"
    if "entryKey h ev keyNode sc st = Some (Return ks, st1)" for ks st1
    by (rule prems) (use that in \<open>simp add: set_thenCalls\<close>)
  have rest: "evalEntries h ev' entries obj' sc st2 = evalEntries h ev entries obj' sc st2"
    if "entryKey h ev keyNode sc st = Some (Return ks, st1)"
       "ev valNode sc st1 = Some (Return v, st2)" for ks st1 v st2 obj'
    by (rule Cons.IH, rule prems) (use that in \<open>simp add: set_thenCalls\<close>)
  show ?case unfolding entry
    by (simp, rule andThen_agree[OF key], rule andThen_agree[OF val]) (simp_all add: rest)
qed

lemma evalBranches_agree:
  "(\<And>e sc' st'. (e, sc', st') \<in> set (branchesCalls h ev c branches sc st)
      \<Longrightarrow> ev' e sc' st' = ev e sc' st')
   \<Longrightarrow> evalBranches h ev' c branches sc st = evalBranches h ev c branches sc st"
proof (induction branches arbitrary: st)
  case Nil
  show ?case by simp
next
  case (Cons branch branches)
  obtain target body where branch: "branch = (target, body)" by (cases branch)
  note prems = Cons.prems[unfolded branch]
  have head: "ev' target sc st = ev target sc st" by (rule prems) simp
  have hit: "ev' body sc st1 = ev body sc st1"
    if "ev target sc st = Some (Return t, st1)" "Eq h c t" for t st1
    by (rule prems) (use that in \<open>simp add: set_thenCalls\<close>)
  have miss: "evalBranches h ev' c branches sc st1 = evalBranches h ev c branches sc st1"
    if "ev target sc st = Some (Return t, st1)" "\<not> Eq h c t" for t st1
    by (rule Cons.IH, rule prems) (use that in \<open>simp add: set_thenCalls\<close>)
  show ?case unfolding branch
    by (simp, rule andThen_agree[OF head]) (simp add: hit miss)
qed

lemma callFn_agree:
  "(\<And>e sc' st'. (e, sc', st') \<in> set (callFnCalls params body fsc args st)
      \<Longrightarrow> ev' e sc' st' = ev e sc' st')
   \<Longrightarrow> callFn ev' params body fsc args st = callFn ev params body fsc args st"
  by (auto simp: callFn_def callFnCalls_def split: prod.splits)

lemma evalNode_agree:
  assumes "\<And>e sc' st'. (e, sc', st') \<in> set (nodeCalls h ev node sc st)
      \<Longrightarrow> ev' e sc' st' = ev e sc' st'"
  shows "evalNode h ev' node sc st = evalNode h ev node sc st"
proof (cases node)
  case (listNode elems)
  have "evalElems ev' elems sc st = evalElems ev elems sc st"
    by (rule evalElems_agree, rule assms) (simp add: listNode)
  then show ?thesis by (simp add: listNode)
next
  case (objectNode entries)
  have "evalEntries h ev' entries [] sc st = evalEntries h ev entries [] sc st"
    by (rule evalEntries_agree, rule assms) (simp add: objectNode)
  then show ?thesis by (simp add: objectNode)
next
  case (assignmentNode isLocal left right)
  have "ev' right sc st = ev right sc st"
    by (rule assms) (simp add: assignmentNode)
  then show ?thesis by (simp add: assignmentNode)
next
  case (propertyAccessNode left right)
  note prems = assms[unfolded propertyAccessNode]
  have l: "ev' left sc st = ev left sc st" by (rule prems) simp
  have r: "ev' right sc st1 = ev right sc st1" if "ev left sc st = Some (Return v, st1)" for v st1
    by (rule prems) (use that in \<open>simp add: set_thenCalls\<close>)
  show ?thesis unfolding propertyAccessNode
    by (simp, rule andThen_agree[OF l]) (simp add: r)
next
  case (fnCallNode fn args)
  note prems = assms[unfolded fnCallNode]
  have f: "ev' fn sc st = ev fn sc st" by (rule prems) simp
  have a: "evalElems ev' args sc st1 = evalElems ev args sc st1"
    if "ev fn sc st = Some (Return v, st1)" for v st1
    by (rule evalElems_agree, rule prems) (use that in \<open>simp add: set_thenCalls\<close>)
  have b: "callFn ev' params body fsc argVals st2 = callFn ev params body fsc argVals st2"
    if "ev fn sc st = Some (Return (FnValue d name params body fsc), st1)"
       "evalElems ev args sc st1 = Some (Return argVals, st2)"
    for d name params body fsc st1 argVals st2
    by (rule callFn_agree, rule prems) (use that in \<open>simp add: set_thenCalls\<close>)
  show ?thesis unfolding fnCallNode
    by (simp, rule andThen_agree[OF f], rule andThen_agree[OF a], assumption)
       (simp add: b split: Value.splits)
next
  case (ifExprNode cond branches)
  note prems = assms[unfolded ifExprNode]
  have c: "ev' cond sc st = ev cond sc st" by (rule prems) simp
  have b: "evalBranches h ev' v branches sc st1 = evalBranches h ev v branches sc st1"
    if "ev cond sc st = Some (Return v, st1)" for v st1
    by (rule evalBranches_agree, rule prems) (use that in \<open>simp add: set_thenCalls\<close>)
  show ?thesis unfolding ifExprNode
    by (simp, rule andThen_agree[OF c]) (simp add: b)
next
  case (blockNode exprs)
  obtain blockScope st1 where ns: "newScope (Some sc) st = (blockScope, st1)"
    by (cases "newScope (Some sc) st")
  have "evalExprs ev' exprs NullValue blockScope st1 = evalExprs ev exprs NullValue blockScope st1"
    by (rule evalExprs_agree, rule assms) (simp add: blockNode ns)
  then show ?thesis by (simp add: blockNode ns)
qed simp_all

subsection \<open>The addresses taken by function literals\<close>

lemma literalValues_Nil [simp]: "literalValues [] = []"
  by (simp add: literalValues_def map_filter_simps)

lemma literalValues_Cons:
  "literalValues (c # cs) =
     (case literalValue c of None \<Rightarrow> literalValues cs | Some v \<Rightarrow> v # literalValues cs)"
  by (simp add: literalValues_def map_filter_simps split: option.splits)

lemma literalValues_append [simp]:
  "literalValues (xs @ ys) = literalValues xs @ literalValues ys"
  by (simp add: literalValues_def map_filter_def)

lemma literalValues_thenCalls:
  "literalValues (concat (map E (thenCalls m k)))
     = thenCalls m (\<lambda>a st. literalValues (concat (map E (k a st))))"
  by (simp add: thenCalls_def split: option.splits result.splits)

lemma literalValue_FnValue: "literalValue c = Some v \<Longrightarrow> isFnValue v"
  by (cases c rule: literalValue.cases) auto

lemma literalValues_FnValue: "v \<in> set (literalValues cs) \<Longrightarrow> isFnValue v"
  by (auto simp: literalValues_def map_filter_def dest: literalValue_FnValue)

lemma endOf_simps [simp]:
  "endOf None = None" "endOf (Some (r, st)) = Some (nextDefn st)"
  by (simp_all add: endOf_def)

lemma endOf_andThen_keep:
  "(\<And>a st1. m = Some (Return a, st1) \<Longrightarrow> endOf (f a st1) = Some (nextDefn st1)) \<Longrightarrow>
   endOf (andThen m f) = endOf m"
  by (auto simp: andThen_def split: option.splits result.splits)

lemma freshRun_Nil [simp]: "freshRun a [] None" "freshRun a [] (Some b) \<longleftrightarrow> a \<le> b"
  by (simp_all add: freshRun_def)

lemma freshRun_append:
  assumes "freshRun a vs (Some b)" "freshRun b ws c"
  shows "freshRun a (vs @ ws) c"
  using assms
  by (cases c) (fastforce simp: freshRun_def sorted_wrt_append)+

lemma freshRun_seq:
  assumes first: "freshRun a vs (endOf m)"
    and rest: "\<And>v st1. m = Some (Return v, st1) \<Longrightarrow> freshRun (nextDefn st1) (K v st1) (endOf (f v st1))"
  shows "freshRun a (vs @ thenCalls m K) (endOf (andThen m f))"
proof (cases m)
  case None
  with first show ?thesis by (simp add: thenCalls_def andThen_def)
next
  case (Some p)
  obtain r st1 where p: "p = (r, st1)" by (cases p)
  show ?thesis
  proof (cases r)
    case (Return v)
    from first Some p have "freshRun a vs (Some (nextDefn st1))" by simp
    from freshRun_append[OF this rest[of v st1]] Some p Return show ?thesis
      by (simp add: thenCalls_def andThen_def)
  next
    case (Error e)
    with first Some p show ?thesis by (simp add: thenCalls_def andThen_def)
  next
    case (Panic msg)
    with first Some p show ?thesis by (simp add: thenCalls_def andThen_def)
  qed
qed

lemma freshRun_elems:
  assumes ev: "\<And>e sc st. freshRun (nextDefn st) (literalValues (E (e, sc, st))) (endOf (ev e sc st))"
  shows "freshRun (nextDefn st) (literalValues (concat (map E (elemsCalls ev es sc st))))
           (endOf (evalElems ev es sc st))"
proof (induction es arbitrary: st)
  case Nil
  show ?case by simp
next
  case (Cons e es)
  have keep: "endOf (andThen (evalElems ev es sc st1) (\<lambda>els st2. Some (Return (el # els), st2)))
      = endOf (evalElems ev es sc st1)" for el st1
    by (rule endOf_andThen_keep) simp
  show ?case
    by (simp add: literalValues_thenCalls, rule freshRun_seq[OF ev]) (simp add: keep Cons.IH)
qed

lemma freshRun_exprs:
  assumes ev: "\<And>e sc st. freshRun (nextDefn st) (literalValues (E (e, sc, st))) (endOf (ev e sc st))"
  shows "freshRun (nextDefn st) (literalValues (concat (map E (elemsCalls ev es sc st))))
           (endOf (evalExprs ev es rv sc st))"
proof (induction es arbitrary: rv st)
  case Nil
  show ?case by simp
next
  case (Cons e es)
  show ?case
    by (simp add: literalValues_thenCalls, rule freshRun_seq[OF ev]) (simp add: Cons.IH)
qed

lemma freshRun_key:
  assumes ev: "\<And>e sc st. freshRun (nextDefn st) (literalValues (E (e, sc, st))) (endOf (ev e sc st))"
  shows "freshRun (nextDefn st) (literalValues (concat (map E (keyCalls keyNode sc st))))
           (endOf (entryKey h ev keyNode sc st))"
proof (cases "isIdentifier keyNode")
  case True
  then show ?thesis by (cases keyNode) simp_all
next
  case False
  have "endOf (entryKey h ev keyNode sc st) = endOf (ev keyNode sc st)"
    using False
    by (cases keyNode; simp; intro endOf_andThen_keep; simp split: Value.splits)
  moreover have "keyCalls keyNode sc st = [(keyNode, sc, st)]"
    using False by (cases keyNode) simp_all
  ultimately show ?thesis using ev[of st keyNode sc] by simp
qed

lemma freshRun_entries:
  assumes ev: "\<And>e sc st. freshRun (nextDefn st) (literalValues (E (e, sc, st))) (endOf (ev e sc st))"
  shows "freshRun (nextDefn st) (literalValues (concat (map E (entriesCalls h ev entries sc st))))
           (endOf (evalEntries h ev entries obj sc st))"
proof (induction entries arbitrary: obj st)
  case Nil
  show ?case by simp
next
  case (Cons entry entries)
  obtain keyNode valNode where entry: "entry = (keyNode, valNode)" by (cases entry)
  show ?case unfolding entry
    apply (simp add: literalValues_thenCalls)
    apply (rule freshRun_seq[OF freshRun_key[OF ev]])
    apply (rule freshRun_seq[OF ev])
    apply (rule Cons.IH)
    done
qed

lemma freshRun_branches:
  assumes ev: "\<And>e sc st. freshRun (nextDefn st) (literalValues (E (e, sc, st))) (endOf (ev e sc st))"
  shows "freshRun (nextDefn st) (literalValues (concat (map E (branchesCalls h ev c branches sc st))))
           (endOf (evalBranches h ev c branches sc st))"
proof (induction branches arbitrary: st)
  case Nil
  show ?case by simp
next
  case (Cons branch branches)
  obtain target body where branch: "branch = (target, body)" by (cases branch)
  show ?case unfolding branch
    apply (simp add: literalValues_thenCalls)
    apply (rule freshRun_seq[OF ev])
    apply (simp add: ev Cons.IH)
    done
qed

lemma freshRun_callFn:
  assumes ev: "\<And>e sc st. freshRun (nextDefn st) (literalValues (E (e, sc, st))) (endOf (ev e sc st))"
  shows "freshRun (nextDefn st) (literalValues (concat (map E (callFnCalls params body fsc args st))))
           (endOf (callFn ev params body fsc args st))"
proof (cases "length args < length params")
  case True
  then show ?thesis by (simp add: callFn_def callFnCalls_def)
next
  case False
  obtain fnScope st1 where ns: "newScope (Some fsc) st = (fnScope, st1)"
    by (cases "newScope (Some fsc) st")
  let ?st = "bindArgs fnScope params (take (length params) args) st1"
  have "nextDefn ?st = nextDefn st"
    using nextDefn_newScope[of "Some fsc" st] ns by simp
  with ev[of ?st body fnScope] False ns show ?thesis
    by (simp add: callFn_def callFnCalls_def)
qed

lemma freshRun_node:
  assumes ev: "\<And>e sc st. freshRun (nextDefn st) (literalValues (E (e, sc, st))) (endOf (ev e sc st))"
    and lit: "\<And>name args body. node \<noteq> fnNode name args body"
  shows "freshRun (nextDefn st) (literalValues (concat (map E (nodeCalls h ev node sc st))))
           (endOf (evalNode h ev node sc st))"
proof (cases node)
  case (listNode elems)
  have "endOf (andThen (evalElems ev elems sc st) (\<lambda>els st1. Some (Return (ListValue els), st1)))
      = endOf (evalElems ev elems sc st)"
    by (rule endOf_andThen_keep) simp
  then show ?thesis unfolding listNode by (simp add: freshRun_elems[OF ev])
next
  case (objectNode entries)
  have "endOf (andThen (evalEntries h ev entries [] sc st)
          (\<lambda>obj st1. Some (Return (ObjectValue obj), st1)))
      = endOf (evalEntries h ev entries [] sc st)"
    by (rule endOf_andThen_keep) simp
  then show ?thesis unfolding objectNode by (simp add: freshRun_entries[OF ev])
next
  case (fnNode name args body)
  with lit[of name args body] show ?thesis by simp
next
  case (identifierNode payload)
  show ?thesis unfolding identifierNode by (simp split: sum.splits)
next
  case (assignmentNode isLocal left right)
  have u: "endOf (case update sc payload v st1 of
                (Some err, st2) \<Rightarrow> Some (Error err, st2)
              | (None, st2) \<Rightarrow> Some (Return v, st2)) = Some (nextDefn st1)" for st1 payload v
    using nextDefn_update[of sc payload v st1]
    by (cases "update sc payload v st1") (simp split: option.splits)
  have "endOf (evalNode h ev (assignmentNode isLocal left right) sc st) = endOf (ev right sc st)"
    by (simp, rule endOf_andThen_keep) (simp add: u split: astNode.splits)
  with ev[of st right sc] show ?thesis unfolding assignmentNode by simp
next
  case (propertyAccessNode left right)
  have keep: "endOf (andThen (ev right sc st1) (\<lambda>r st2. Some (propertyAccess h v r, st2)))
      = endOf (ev right sc st1)" for v st1
    by (rule endOf_andThen_keep) simp
  show ?thesis unfolding propertyAccessNode
    apply (simp add: literalValues_thenCalls)
    apply (rule freshRun_seq[OF ev])
    apply (simp only: keep concat.simps list.map append_Nil2 ev)
    done
next
  case (fnCallNode fn args)
  show ?thesis unfolding fnCallNode
    apply (simp add: literalValues_thenCalls)
    apply (rule freshRun_seq[OF ev])
    apply (rule freshRun_seq[OF freshRun_elems[OF ev]])
    apply (simp add: freshRun_callFn[OF ev] split: Value.splits)
    done
next
  case (ifExprNode cond branches)
  show ?thesis unfolding ifExprNode
    apply (simp add: literalValues_thenCalls)
    apply (rule freshRun_seq[OF ev])
    apply (rule freshRun_branches[OF ev])
    done
next
  case (blockNode exprs)
  obtain blockScope st1 where ns: "newScope (Some sc) st = (blockScope, st1)"
    by (cases "newScope (Some sc) st")
  then have "nextDefn st1 = nextDefn st"
    using nextDefn_newScope[of "Some sc" st] by simp
  with freshRun_exprs[OF ev, of st1 exprs blockScope NullValue] ns show ?thesis
    unfolding blockNode by simp
qed simp_all

lemma freshRun_events:
  "freshRun (nextDefn st) (literalValues (events h n node sc st)) (endOf (evalExpr h n node sc st))"
proof (induction n arbitrary: node sc st)
  case 0
  show ?case by simp
next
  case (Suc n)
  let ?E = "\<lambda>(e, sc', st'). events h n e sc' st'"
  have ih: "freshRun (nextDefn st) (literalValues (?E (e, sc, st))) (endOf (evalExpr h n e sc st))"
    for e sc st
    using Suc.IH[of st e sc] by simp
  show ?case
  proof (cases "\<exists>name args body. node = fnNode name args body")
    case True
    then obtain name args body where node: "node = fnNode name args body" by blast
    show ?thesis unfolding node
      by (simp add: literalValues_Cons Let_def freshRun_def)
  next
    case False
    then have lit: "\<And>name args body. node \<noteq> fnNode name args body" by blast
    have "literalValue (node, sc, st) = None"
      using lit[of "case node of fnNode name args body \<Rightarrow> name"
                   "case node of fnNode name args body \<Rightarrow> args"
                   "case node of fnNode name args body \<Rightarrow> body"]
      by (cases node) simp_all
    with freshRun_node[of ?E "evalExpr h n", OF ih lit, of st h sc] show ?thesis
      by (simp add: literalValues_Cons)
  qed
qed


lemma events_numeral:
  "events h (numeral k) node sc st =
     (node, sc, st) #
     concat (map (\<lambda>(e, sc', st'). events h (pred_numeral k) e sc' st')
       (nodeCalls h (evalExpr h (pred_numeral k)) node sc st))"
  by (simp add: numeral_eq_Suc)

lemma Eq_FnValue_defnOf:
  "isFnValue v \<Longrightarrow> isFnValue w \<Longrightarrow> Eq h v w = (defnOf v = defnOf w)"
  by (cases v; cases w) simp_all

lemma literalValues_member:
  "(fnNode name args body, sc, st) \<in> set cs \<Longrightarrow>
   FnValue (nextDefn st) name args body sc \<in> set (literalValues cs)"
  by (force simp: literalValues_def map_filter_def)

lemma literalValues_unequal:
  assumes "i < j" "j < length (literalValues (events h n node sc st))"
  shows "\<not> Eq h (literalValues (events h n node sc st) ! i)
               (literalValues (events h n node sc st) ! j)"
    and "\<not> Eq h (literalValues (events h n node sc st) ! j)
               (literalValues (events h n node sc st) ! i)"
proof -
  let ?vs = "literalValues (events h n node sc st)"
  from freshRun_events[of st h n node sc]
  have "sorted_wrt (\<lambda>v w. defnOf v < defnOf w) ?vs" by (simp add: freshRun_def)
  from sorted_wrt_nth_less[OF this assms] have lt: "defnOf (?vs ! i) < defnOf (?vs ! j)" .
  from assms have "?vs ! i \<in> set ?vs" "?vs ! j \<in> set ?vs" by simp_all
  then have fn: "isFnValue (?vs ! i)" "isFnValue (?vs ! j)"
    by (auto dest: literalValues_FnValue)
  from lt show "\<not> Eq h (?vs ! i) (?vs ! j)" "\<not> Eq h (?vs ! j) (?vs ! i)"
    by (simp_all add: Eq_FnValue_defnOf[OF fn] Eq_FnValue_defnOf[OF fn(2,1)])
qed

lemma literalValues_bounds:
  assumes "v \<in> set (literalValues (events h n node sc st))"
  shows "nextDefn st \<le> defnOf v"
    and "evalExpr h n node sc st = Some (r, st') \<Longrightarrow> defnOf v < nextDefn st'"
  using freshRun_events[of st h n node sc] assms
  by (auto simp: freshRun_def)

lemma exTwice_values:
  "literalValues (events exampleHost 4 exTwice globalScope initialStore)
     = [FnValue 0 ''mk'' [] exFn (Scope (Some globalScope) 1),
        FnValue 1 [] [''a''] (identifierNode ''a'') (Scope (Some (Scope (Some globalScope) 1)) 2),
        FnValue 2 [] [''a''] (identifierNode ''a'') (Scope (Some (Scope (Some globalScope) 1)) 3)]"
  by (simp add: events_numeral evalExpr_numeral exTwice_def exFn_def thenCalls_def andThen_def
        callFn_def callFnCalls_def newScope_def put_def Let_def literalValues_Cons
        globalScope_def initialStore_def NewContext_def emptyStore_def)

lemma exTwice_result:
  "map_option fst (evalExpr exampleHost 4 exTwice globalScope initialStore)
     = Some (Return (ListValue
        [FnValue 1 [] [''a''] (identifierNode ''a'') (Scope (Some (Scope (Some globalScope) 1)) 2),
         FnValue 2 [] [''a''] (identifierNode ''a'') (Scope (Some (Scope (Some globalScope) 1)) 3)]))"
  by (simp add: evalExpr_numeral exTwice_def exFn_def andThen_def
        callFn_def newScope_def put_def Let_def
        globalScope_def initialStore_def NewContext_def emptyStore_def)

text \<open>
  C10. The equality of functions is the identity of the definition they point to: two
  function values are equal exactly when they hold the same address, so a function equals
  itself, and, as the receiver of \<^verbatim>\<open>Eq\<close>, it equals no value of another variant (the
  empty value as the receiver equals it, as it equals every value). Each evaluation of a
  function literal allocates its own \<^verbatim>\<open>fnNode\<close>: among all the evaluations made while
  a program is evaluated, inside calls and loops as well, any two evaluations of function
  literals give unequal functions, their addresses increasing from the allocation count of
  the store the program started in and staying below the count it leaves; and the values of
  two evaluations of one literal, whatever is evaluated in between, are unequal.
\<close>

theorem FnValue_Eq_identity:
  "Eq h (FnValue d name args body sc) (FnValue d' name' args' body' sc') = (d = d')
   \<and> Eq h (FnValue d name args body sc) (FnValue d name args body sc)
   \<and> (\<not> isFnValue u \<longrightarrow> \<not> Eq h (FnValue d name args body sc) u)
   \<and> (evalExpr h (Suc n) (fnNode name args body) sc st = Some (Return v1, st1) \<longrightarrow>
        Eq h v1 v1)
   \<and> (evalExpr h (Suc n) (fnNode name args body) sc st = Some (Return v1, st1) \<and>
      evalExpr h k e sc2 st1 = Some (r, st2) \<and>
      evalExpr h (Suc m) (fnNode name args body) sc3 st2 = Some (Return v2, st3) \<longrightarrow>
        \<not> Eq h v1 v2 \<and> \<not> Eq h v2 v1)
   \<and> (evalExpr h (Suc n) (fnNode name args body) sc st = Some (Return v1, st1) \<and>
      evalExpr h (Suc m) (fnNode name args body) sc3 st1 = Some (Return v2, st3) \<longrightarrow>
        \<not> Eq h v1 v2 \<and> \<not> Eq h v2 v1)
   \<and> Eq h EmptyValue (FnValue d name args body sc)
   \<and> (i < j \<and> j < length (literalValues (events h q prog psc pst)) \<longrightarrow>
        \<not> Eq h (literalValues (events h q prog psc pst) ! i)
                (literalValues (events h q prog psc pst) ! j)
      \<and> \<not> Eq h (literalValues (events h q prog psc pst) ! j)
                (literalValues (events h q prog psc pst) ! i))
   \<and> ((fnNode name args body, lsc, lst) \<in> set (events h q prog psc pst) \<longrightarrow>
        FnValue (nextDefn lst) name args body lsc \<in> set (literalValues (events h q prog psc pst))
      \<and> map_option fst (evalExpr h (Suc k) (fnNode name args body) lsc lst)
          = Some (Return (FnValue (nextDefn lst) name args body lsc)))
   \<and> (v \<in> set (literalValues (events h q prog psc pst)) \<longrightarrow>
        isFnValue v \<and> nextDefn pst \<le> defnOf v
      \<and> (evalExpr h q prog psc pst = Some (pr, pst') \<longrightarrow> defnOf v < nextDefn pst'))
   \<and> ((\<forall>c \<in> set (nodeCalls h ev prog psc pst).
          case c of (ce, csc, cst) \<Rightarrow> ev' ce csc cst = ev ce csc cst) \<longrightarrow>
        evalNode h ev' prog psc pst = evalNode h ev prog psc pst)"
proof -
  note seq = FnValue_Eq_sequence[of h d name args body sc d' name' args' body' sc' u n st v1 st1
      k e sc2 r st2 m sc3 v2 st3]
  have empty: "Eq h EmptyValue (FnValue d name args body sc)"
    by simp
  have pairs: "i < j \<and> j < length (literalValues (events h q prog psc pst)) \<longrightarrow>
        \<not> Eq h (literalValues (events h q prog psc pst) ! i)
                (literalValues (events h q prog psc pst) ! j)
      \<and> \<not> Eq h (literalValues (events h q prog psc pst) ! j)
                (literalValues (events h q prog psc pst) ! i)"
    using literalValues_unequal[of i j h q prog psc pst] by blast
  have made: "(fnNode name args body, lsc, lst) \<in> set (events h q prog psc pst) \<longrightarrow>
        FnValue (nextDefn lst) name args body lsc \<in> set (literalValues (events h q prog psc pst))
      \<and> map_option fst (evalExpr h (Suc k) (fnNode name args body) lsc lst)
          = Some (Return (FnValue (nextDefn lst) name args body lsc))"
    using literalValues_member[of name args body lsc lst "events h q prog psc pst"]
    by (simp add: Let_def)
  have bounds: "v \<in> set (literalValues (events h q prog psc pst)) \<longrightarrow>
        isFnValue v \<and> nextDefn pst \<le> defnOf v
      \<and> (evalExpr h q prog psc pst = Some (pr, pst') \<longrightarrow> defnOf v < nextDefn pst')"
    using literalValues_bounds(1)[of v h q prog psc pst]
      literalValues_bounds(2)[of v h q prog psc pst pr pst']
      literalValues_FnValue[of v "events h q prog psc pst"]
    by blast
  have agree: "(\<forall>c \<in> set (nodeCalls h ev prog psc pst).
          case c of (ce, csc, cst) \<Rightarrow> ev' ce csc cst = ev ce csc cst) \<longrightarrow>
        evalNode h ev' prog psc pst = evalNode h ev prog psc pst"
  proof
    assume a: "\<forall>c \<in> set (nodeCalls h ev prog psc pst).
          case c of (ce, csc, cst) \<Rightarrow> ev' ce csc cst = ev ce csc cst"
    show "evalNode h ev' prog psc pst = evalNode h ev prog psc pst"
      by (rule evalNode_agree) (use a in auto)
  qed
  from seq empty pairs made bounds agree show ?thesis
    by (elim conjE, intro conjI) assumption+
qed

theorem FnValue_Eq_identity_witness:
  "\<not> isFnValue EmptyValue
   \<and> \<not> Eq exampleHost (FnValue 0 [] [''a''] (identifierNode ''a'') globalScope) EmptyValue
   \<and> evalExpr exampleHost 1 exFn globalScope initialStore
       = Some (Return (FnValue 0 [] [''a''] (identifierNode ''a'') globalScope),
           initialStore\<lparr>nextDefn := 1\<rparr>)
   \<and> evalExpr exampleHost 1 nullNode globalScope (initialStore\<lparr>nextDefn := 1\<rparr>)
       = Some (Return NullValue, initialStore\<lparr>nextDefn := 1\<rparr>)
   \<and> evalExpr exampleHost 1 exFn globalScope (initialStore\<lparr>nextDefn := 1\<rparr>)
       = Some (Return (FnValue 1 [] [''a''] (identifierNode ''a'') globalScope),
           initialStore\<lparr>nextDefn := 2\<rparr>)
   \<and> \<not> Eq exampleHost (FnValue 0 [] [''a''] (identifierNode ''a'') globalScope)
         (FnValue 1 [] [''a''] (identifierNode ''a'') globalScope)
   \<and> Eq exampleHost (FnValue 0 [] [''a''] (identifierNode ''a'') globalScope)
         (FnValue 0 [] [''a''] (identifierNode ''a'') globalScope)
   \<and> literalValues (events exampleHost 4 exTwice globalScope initialStore)
       = [FnValue 0 ''mk'' [] exFn (Scope (Some globalScope) 1),
          FnValue 1 [] [''a''] (identifierNode ''a'') (Scope (Some (Scope (Some globalScope) 1)) 2),
          FnValue 2 [] [''a''] (identifierNode ''a'') (Scope (Some (Scope (Some globalScope) 1)) 3)]
   \<and> map_option fst (evalExpr exampleHost 4 exTwice globalScope initialStore)
       = Some (Return (ListValue
          [FnValue 1 [] [''a''] (identifierNode ''a'') (Scope (Some (Scope (Some globalScope) 1)) 2),
           FnValue 2 [] [''a''] (identifierNode ''a'')
             (Scope (Some (Scope (Some globalScope) 1)) 3)]))
   \<and> \<not> Eq exampleHost
         (FnValue 1 [] [''a''] (identifierNode ''a'') (Scope (Some (Scope (Some globalScope) 1)) 2))
         (FnValue 2 [] [''a''] (identifierNode ''a'') (Scope (Some (Scope (Some globalScope) 1)) 3))"
proof -
  let ?f0 = "FnValue 0 [] [''a''] (identifierNode ''a'') globalScope"
  let ?f1 = "FnValue 1 [] [''a''] (identifierNode ''a'') globalScope"
  let ?st1 = "initialStore\<lparr>nextDefn := 1\<rparr>"
  have a: "evalExpr exampleHost (Suc 0) (fnNode [] [''a''] (identifierNode ''a'')) globalScope
      initialStore = Some (Return ?f0, ?st1)"
    by (simp add: Let_def initialStore_def NewContext_def newScope_def emptyStore_def)
  have mid: "evalExpr exampleHost 1 nullNode globalScope ?st1 = Some (Return NullValue, ?st1)"
    by simp
  have b: "evalExpr exampleHost (Suc 0) (fnNode [] [''a''] (identifierNode ''a'')) globalScope
      ?st1 = Some (Return ?f1, initialStore\<lparr>nextDefn := 2\<rparr>)"
    by (simp add: Let_def initialStore_def NewContext_def newScope_def emptyStore_def)
  have e: "\<not> isFnValue EmptyValue" by simp
  note t = FnValue_Eq_identity[where h = exampleHost and d = 0 and name = "[]"
      and args = "[''a'']" and body = "identifierNode ''a''" and sc = globalScope
      and u = EmptyValue and n = 0 and st = initialStore and ?v1.0 = ?f0 and ?st1.0 = ?st1
      and k = 1 and e = nullNode and ?sc2.0 = globalScope and r = "Return NullValue"
      and ?st2.0 = ?st1 and m = 0 and ?sc3.0 = globalScope and ?v2.0 = ?f1
      and ?st3.0 = "initialStore\<lparr>nextDefn := 2\<rparr>"]
  from t e have c1: "\<not> Eq exampleHost ?f0 EmptyValue" by blast
  from t a mid b have c2: "\<not> Eq exampleHost ?f0 ?f1" by blast
  from t a have c3: "Eq exampleHost ?f0 ?f0" by blast
  from a b have a': "evalExpr exampleHost 1 exFn globalScope initialStore = Some (Return ?f0, ?st1)"
    and b': "evalExpr exampleHost 1 exFn globalScope ?st1
      = Some (Return ?f1, initialStore\<lparr>nextDefn := 2\<rparr>)"
    unfolding exFn_def One_nat_def by blast+
  let ?vs = "literalValues (events exampleHost 4 exTwice globalScope initialStore)"
  note g = FnValue_Eq_identity[where h = exampleHost and i = 1 and j = 2 and q = 4
      and prog = exTwice and psc = globalScope and pst = initialStore]
  have len: "(1::nat) < 2 \<and> 2 < length ?vs"
    by (simp add: exTwice_values)
  note pairs = g[THEN conjunct2, THEN conjunct2, THEN conjunct2, THEN conjunct2,
      THEN conjunct2, THEN conjunct2, THEN conjunct2, THEN conjunct1]
  from pairs[THEN mp, OF len] have "\<not> Eq exampleHost (?vs ! 1) (?vs ! 2)" by (rule conjunct1)
  then have c4: "\<not> Eq exampleHost
         (FnValue 1 [] [''a''] (identifierNode ''a'') (Scope (Some (Scope (Some globalScope) 1)) 2))
         (FnValue 2 [] [''a''] (identifierNode ''a'') (Scope (Some (Scope (Some globalScope) 1)) 3))"
    unfolding exTwice_values by simp
  from e c1 a' mid b' c2 c3 exTwice_values exTwice_result c4 show ?thesis by (intro conjI)
qed

section \<open>String keys of objects\<close>

lemma quoted_differs: "quoted s \<noteq> s"
proof
  assume "quoted s = s"
  then have "length (quoted s) = length s" by simp
  then show False by (simp add: quoted_def)
qed

text \<open>
  C9. An object literal stores an entry whose key evaluates to the string \<open>s\<close> under the
  bytes of \<open>s\<close>; a property access with the key value \<open>s\<close> looks up the display form
  of \<open>s\<close>, in single quotes, which is never \<open>s\<close>. The access therefore returns the
  value stored under the quoted form when the object has such an entry, and \<open>Null\<close>
  otherwise, as for the object built from the single entry. An entry stored under the form
  of an integer or a float is found again by an access with that integer or float.
\<close>

theorem object_String_key_read:
  "(\<not> isIdentifier keyNode \<and> evalExpr h n keyNode sc st = Some (Return (StringValue s), st1) \<and>
      evalExpr h n valNode sc st1 = Some (Return val, st2) \<longrightarrow>
        evalExpr h (Suc n) (objectNode [(keyNode, valNode)]) sc st
          = Some (Return (ObjectValue [(s, val)]), st2)
      \<and> evalEntries h (evalExpr h n) ((keyNode, valNode) # rest) obj sc st
          = evalEntries h (evalExpr h n) rest (objPut s val obj) sc st2)
   \<and> propertyAccess h (ObjectValue obj) (StringValue s)
       = Return (case map_of obj (quoted s) of Some v \<Rightarrow> v | None \<Rightarrow> NullValue)
   \<and> quoted s \<noteq> s
   \<and> propertyAccess h (ObjectValue [(s, val)]) (StringValue s) = Return NullValue
   \<and> propertyAccess h (ObjectValue (objPut (String' h (IntValue i)) val obj)) (IntValue i)
       = Return val
   \<and> propertyAccess h (ObjectValue (objPut (String' h (FloatValue f)) val obj)) (FloatValue f)
       = Return val"
proof -
  have w: "evalExpr h (Suc n) (objectNode [(keyNode, valNode)]) sc st
          = Some (Return (ObjectValue [(s, val)]), st2)"
     "evalEntries h (evalExpr h n) ((keyNode, valNode) # rest) obj sc st
          = evalEntries h (evalExpr h n) rest (objPut s val obj) sc st2"
    if "\<not> isIdentifier keyNode" "evalExpr h n keyNode sc st = Some (Return (StringValue s), st1)"
       "evalExpr h n valNode sc st1 = Some (Return val, st2)"
    using entryKey_evaluated[where ev = "evalExpr h n" and h = h, OF that(1,2)] that(3)
    by (simp_all add: andThen_def)
  have r: "propertyAccess h (ObjectValue obj) (StringValue s)
       = Return (case map_of obj (quoted s) of Some v \<Rightarrow> v | None \<Rightarrow> NullValue)" for obj
    by (simp add: quoted_def split: option.splits)
  have single: "propertyAccess h (ObjectValue [(s, val)]) (StringValue s) = Return NullValue"
    using quoted_differs[of s] by (simp add: r del: propertyAccess.simps)
  have i: "propertyAccess h (ObjectValue (objPut (String' h (IntValue i)) val obj)) (IntValue i)
       = Return val"
    by (simp add: map_of_objPut del: String'.simps)
  have f: "propertyAccess h (ObjectValue (objPut (String' h (FloatValue f)) val obj)) (FloatValue f)
       = Return val"
    by (simp add: map_of_objPut del: String'.simps)
  from w r single i f quoted_differs[of s] show ?thesis by blast
qed

theorem object_String_key_read_witness:
  "\<not> isIdentifier (stringNode ''a'')
   \<and> evalExpr exampleHost 1 (stringNode ''a'') globalScope initialStore
       = Some (Return (StringValue ''a''), initialStore)
   \<and> evalExpr exampleHost 1 (intLit 1) globalScope initialStore
       = Some (Return (IntValue 1), initialStore)
   \<and> evalExpr exampleHost 2 (objectNode [(stringNode ''a'', intLit 1)]) globalScope initialStore
       = Some (Return (ObjectValue [(''a'', IntValue 1)]), initialStore)
   \<and> propertyAccess exampleHost (ObjectValue [(''a'', IntValue 1)]) (StringValue ''a'')
       = Return NullValue
   \<and> propertyAccess exampleHost (ObjectValue [(''7'', IntValue 1)]) (IntValue 7)
       = Return (IntValue 1)"
proof -
  have k: "\<not> isIdentifier (stringNode ''a'')"
    and ek: "evalExpr exampleHost 1 (stringNode ''a'') globalScope initialStore
       = Some (Return (StringValue ''a''), initialStore)"
    and ev: "evalExpr exampleHost 1 (intLit 1) globalScope initialStore
       = Some (Return (IntValue 1), initialStore)"
    by (simp_all add: intLit_def)
  note t = object_String_key_read[where h = exampleHost and n = 1
      and keyNode = "stringNode ''a''" and valNode = "intLit 1" and sc = globalScope
      and st = initialStore and ?st1.0 = initialStore and ?st2.0 = initialStore
      and s = "''a''" and val = "IntValue 1" and i = 7 and obj = "[]"]
  from t k ek ev have w: "evalExpr exampleHost (Suc 1) (objectNode [(stringNode ''a'', intLit 1)])
      globalScope initialStore = Some (Return (ObjectValue [(''a'', IntValue 1)]), initialStore)"
    by blast
  from t have r: "propertyAccess exampleHost (ObjectValue [(''a'', IntValue 1)]) (StringValue ''a'')
       = Return NullValue"
    by blast
  from t have i: "propertyAccess exampleHost
      (ObjectValue (objPut (String' exampleHost (IntValue 7)) (IntValue 1) [])) (IntValue 7)
       = Return (IntValue 1)"
    by blast
  have two: "Suc 1 = 2" by simp
  from k ek ev w r i FormatInt_7 show ?thesis
    unfolding two by (simp del: propertyAccess.simps)
qed

text \<open>
  The claim as stated, that the access returns \<open>Null\<close> for every object built from an entry
  with the key \<open>s\<close>, fails when another entry has the quoted form of \<open>s\<close> as its key:
  \<^verbatim>\<open>{'a': 1, '\'a\'': 2}\<close> read at \<^verbatim>\<open>'a'\<close> gives 2.
\<close>

theorem object_String_key_read_counterexample:
  "evalExpr exampleHost 3 (propertyAccessNode exQuotedKeys (stringNode ''a''))
     globalScope initialStore
   = Some (Return (IntValue 2), initialStore)
   \<and> IntValue 2 \<noteq> NullValue"
  by (simp add: evalExpr_numeral exQuotedKeys_def quoted_def intLit_def andThen_def)

end
